theory Spec2Isabelle
  imports Main "HOL-Library.Sublist" "HOL-Library.List_Lexorder" "HOL-Library.Char_ord"
    "HOL-Library.FSet"
begin

section \<open>Text\<close>

text \<open>
  The program handles Python \<open>str\<close> values. They are modelled as \<^typ>\<open>string\<close>, one
  \<^typ>\<open>char\<close> per code point, for text whose code points are below 256. Strings compare
  as Python compares them, code point by code point (the lexicographic order on
  \<^typ>\<open>char list\<close>). Whitespace is what Python takes for whitespace among these code
  points, in \<open>str.strip\<close>, in the pattern class \<open>\s\<close> and in \<open>strptime\<close> alike. The case
  mappings change the ASCII letters; Python also changes letters above 127, none of which
  occurs in a zone identifier, in a key of the abbreviation table or in a recognised time
  expression.
\<close>

definition isspace :: "char \<Rightarrow> bool" where
  \<comment> \<open>\<open>str.isspace\<close> on one character: TAB, LF, VT, FF, CR, the separators 0x1C..0x1F,
      SPACE, NEXT LINE (0x85) and NO-BREAK SPACE (0xA0).\<close>
  "isspace c =
     (let n = (of_char c :: nat) in
      (9 \<le> n \<and> n \<le> 13) \<or> (28 \<le> n \<and> n \<le> 32) \<or> n = 133 \<or> n = 160)"

definition strip :: "string \<Rightarrow> string" where
  \<comment> \<open>\<open>s.strip()\<close>\<close>
  "strip s = rev (dropWhile isspace (rev (dropWhile isspace s)))"

definition upper_char :: "char \<Rightarrow> char" where
  "upper_char c =
     (if CHR ''a'' \<le> c \<and> c \<le> CHR ''z'' then char_of (of_char c - (32::nat)) else c)"

definition lower_char :: "char \<Rightarrow> char" where
  "lower_char c =
     (if CHR ''A'' \<le> c \<and> c \<le> CHR ''Z'' then char_of (of_char c + (32::nat)) else c)"

definition upper :: "string \<Rightarrow> string" where
  \<comment> \<open>\<open>s.upper()\<close>\<close>
  "upper s = map upper_char s"

definition lower :: "string \<Rightarrow> string" where
  \<comment> \<open>\<open>s.lower()\<close>\<close>
  "lower s = map lower_char s"

definition str_in :: "string \<Rightarrow> string \<Rightarrow> bool" where
  \<comment> \<open>\<open>a in b\<close> on two strings: \<open>a\<close> occurs in \<open>b\<close> as a contiguous run.\<close>
  "str_in a b = sublist a b"

section \<open>Exceptions\<close>

datatype exn =
    ValueError string
  | ZoneInfoNotFoundError string
  | OverflowError string

section \<open>The converter and zone resolution\<close>

record TimeZoneConverter =
  timezone_abbrevs :: "(string \<times> string) list"
  all_timezones :: "string list"

definition init :: "string fset \<Rightarrow> TimeZoneConverter" where
  \<comment> \<open>\<open>TimeZoneConverter.__init__\<close>. The argument is the set that
      \<open>zoneinfo.available_timezones()\<close> returns on the machine.\<close>
  "init available =
     \<lparr> timezone_abbrevs =
         [ (''EST'', ''America/New_York''),
           (''PST'', ''America/Los_Angeles''),
           (''MST'', ''America/Denver''),
           (''CST'', ''America/Chicago''),
           (''GMT'', ''Europe/London''),
           (''UTC'', ''UTC''),
           (''JST'', ''Asia/Tokyo''),
           (''CET'', ''Europe/Paris''),
           (''IST'', ''Asia/Kolkata''),
           (''AEST'', ''Australia/Sydney'') ],
       all_timezones = sorted_list_of_fset available \<rparr>"

definition normalize_timezone :: "TimeZoneConverter \<Rightarrow> string \<Rightarrow> exn + string" where
  "normalize_timezone self tz_input0 =
     (let tz_input = strip tz_input0 in
      case map_of (timezone_abbrevs self) (upper tz_input) of
        Some z \<Rightarrow> Inr z
      | None \<Rightarrow>
          if tz_input \<in> set (all_timezones self) then Inr tz_input
          else
            (case find (\<lambda>tz. str_in (lower tz_input) (lower tz)) (all_timezones self) of
               Some tz \<Rightarrow> Inr tz
             | None \<Rightarrow> Inl (ValueError (''Unknown timezone: '' @ tz_input))))"

section \<open>A small zone catalog\<close>

definition demo_zones :: "string fset" where
  \<comment> \<open>Eleven identifiers of the IANA database.\<close>
  "demo_zones =
     {| ''UTC'', ''EST'', ''Singapore'', ''Asia/Singapore'', ''Asia/Tokyo'', ''Asia/Kolkata'',
        ''America/New_York'', ''America/Los_Angeles'', ''Europe/Budapest'', ''Europe/London'',
        ''Africa/Abidjan'' |}"

section \<open>Dates and times\<close>

text \<open>
  The program calls Python's standard library for dates (\<open>datetime\<close>), zones
  (\<open>zoneinfo\<close>), patterns (\<open>re\<close>) and formats (\<open>strptime\<close>). The parts it uses are
  written here as the library documents them, so that the functions of the program can be
  written call by call.

  A Python \<open>datetime\<close> without a zone: the wall-clock fields and the \<open>fold\<close> flag. The
  fields are Python integers.
\<close>

record datetime =
  year :: int
  month :: int
  day :: int
  hour :: int
  minute :: int
  second :: int
  microsecond :: int
  fold :: int

text \<open>
  An aware \<open>datetime\<close>: the wall-clock value and the zone attached to it. A
  \<open>ZoneInfo\<close> object is represented by its key, since \<open>ZoneInfo(key)\<close> returns one
  cached object per key.
\<close>

record aware =
  naive :: datetime
  tzinfo :: string

definition is_leap :: "int \<Rightarrow> bool" where
  "is_leap y = (y mod 4 = 0 \<and> (y mod 100 \<noteq> 0 \<or> y mod 400 = 0))"

definition days_in_year :: "int \<Rightarrow> int" where
  "days_in_year y = (if is_leap y then 366 else 365)"

definition days_in_month :: "int \<Rightarrow> int \<Rightarrow> int" where
  "days_in_month y m =
     (if m = 2 then (if is_leap y then 29 else 28)
      else if m = 4 \<or> m = 6 \<or> m = 9 \<or> m = 11 then 30 else 31)"

definition days_before_year :: "int \<Rightarrow> int" where
  \<comment> \<open>the number of days before January 1st of year \<open>y\<close>\<close>
  "days_before_year y = (let p = y - 1 in p * 365 + p div 4 - p div 100 + p div 400)"

definition days_before_month :: "int \<Rightarrow> int \<Rightarrow> int" where
  \<comment> \<open>the number of days of year \<open>y\<close> before the first day of month \<open>m\<close>\<close>
  "days_before_month y m =
     (if m = 1 then 0 else if m = 2 then 31 else if m = 3 then 59 else if m = 4 then 90
      else if m = 5 then 120 else if m = 6 then 151 else if m = 7 then 181
      else if m = 8 then 212 else if m = 9 then 243 else if m = 10 then 273
      else if m = 11 then 304 else 334)
       + (if 2 < m \<and> is_leap y then 1 else 0)"

definition ymd2ord :: "int \<Rightarrow> int \<Rightarrow> int \<Rightarrow> int" where
  \<comment> \<open>\<open>date(y, m, d).toordinal()\<close>: day 1 is 0001-01-01\<close>
  "ymd2ord y m d = days_before_year y + days_before_month y m + d"

definition wall_us :: "datetime \<Rightarrow> int" where
  \<comment> \<open>the microseconds from 0001-01-01 00:00 to the wall-clock value\<close>
  "wall_us dt =
     ((((ymd2ord (year dt) (month dt) (day dt) - 1) * 24 + hour dt) * 60
        + minute dt) * 60 + second dt) * 1000000 + microsecond dt"

fun find_year :: "nat \<Rightarrow> int \<Rightarrow> int \<Rightarrow> int" where
  "find_year 0 y n = y"
| "find_year (Suc k) y n =
     (if days_before_year (y + 1) < n then find_year k (y + 1) n else y)"

fun find_month :: "nat \<Rightarrow> int \<Rightarrow> int \<Rightarrow> int \<Rightarrow> int \<times> int" where
  "find_month 0 y m n = (m, n)"
| "find_month (Suc k) y m n =
     (if days_in_month y m < n then find_month k y (m + 1) (n - days_in_month y m)
      else (m, n))"

definition ord2ymd :: "int \<Rightarrow> int \<times> int \<times> int" where
  \<comment> \<open>\<open>date.fromordinal(n)\<close>, by search: the year is looked for upwards from
      \<open>n div 366 + 1\<close>, which is never too large, in at most \<open>n div 36500 + 1\<close> steps.\<close>
  "ord2ymd n =
     (let y = find_year (nat (n div 36500 + 1)) (n div 366 + 1) n;
          (m, d) = find_month 11 y 1 (n - days_before_year y)
      in (y, m, d))"

definition MAXORDINAL :: int where
  \<comment> \<open>\<open>date(9999, 12, 31).toordinal()\<close>\<close>
  "MAXORDINAL = 3652059"

definition of_wall_us :: "int \<Rightarrow> datetime option" where
  \<comment> \<open>the wall-clock value at a number of microseconds from 0001-01-01 00:00, when it
      lies in the years 1 to 9999\<close>
  "of_wall_us w =
     (let n = w div 86400000000 + 1; r = w mod 86400000000 in
      if n < 1 \<or> MAXORDINAL < n then None
      else
        (case ord2ymd n of (y, m, d) \<Rightarrow>
           Some \<lparr> year = y, month = m, day = d,
                  hour = r div 3600000000, minute = r div 60000000 mod 60,
                  second = r div 1000000 mod 60, microsecond = r mod 1000000,
                  fold = 0 \<rparr>))"

definition datetime_add :: "datetime \<Rightarrow> int \<Rightarrow> exn + datetime" where
  \<comment> \<open>\<open>dt + timedelta(seconds=s)\<close>\<close>
  "datetime_add dt s =
     (case of_wall_us (wall_us dt + s * 1000000) of
        None \<Rightarrow> Inl (OverflowError ''date value out of range'')
      | Some r \<Rightarrow> Inr r)"

section \<open>The zone database and the clock\<close>

text \<open>
  The zone database is outside the program: a parameter. \<open>has_zone\<close> tells whether
  \<open>ZoneInfo(key)\<close> finds the key, \<open>utcoffset\<close> is \<open>ZoneInfo(key).utcoffset(dt)\<close> in
  seconds (it reads the wall-clock fields and \<open>fold\<close> of \<open>dt\<close>), and \<open>fromutc\<close> is
  \<open>ZoneInfo(key).fromutc(dt)\<close>, from a wall-clock value in UTC to the local one.
\<close>

record tzdb =
  has_zone :: "string \<Rightarrow> bool"
  utcoffset :: "string \<Rightarrow> datetime \<Rightarrow> int"
  fromutc :: "string \<Rightarrow> datetime \<Rightarrow> exn + datetime"

text \<open>
  The clock of the machine at the moment of a call: the wall-clock value in UTC, and the
  wall-clock value in the machine's own zone, which \<open>datetime.now()\<close> returns.
\<close>

record clock =
  utcnow :: datetime
  localnow :: datetime

definition ZoneInfo :: "tzdb \<Rightarrow> string \<Rightarrow> exn + string" where
  "ZoneInfo db key =
     (if has_zone db key then Inr key
      else Inl (ZoneInfoNotFoundError (''No time zone found with key '' @ key)))"

definition datetime_now :: "tzdb \<Rightarrow> clock \<Rightarrow> string \<Rightarrow> exn + aware" where
  \<comment> \<open>\<open>datetime.now(tz)\<close>\<close>
  "datetime_now db clk tz =
     (case fromutc db tz (utcnow clk) of
        Inl e \<Rightarrow> Inl e
      | Inr r \<Rightarrow> Inr \<lparr> naive = r, tzinfo = tz \<rparr>)"

definition astimezone :: "tzdb \<Rightarrow> aware \<Rightarrow> string \<Rightarrow> exn + aware" where
  \<comment> \<open>\<open>self.astimezone(tz)\<close>: the same zone object gives \<open>self\<close>; otherwise the offset of
      \<open>self\<close> is subtracted and the target zone converts the result from UTC.\<close>
  "astimezone db self tz =
     (if tz = tzinfo self then Inr self
      else
        (case datetime_add (naive self) (- utcoffset db (tzinfo self) (naive self)) of
           Inl e \<Rightarrow> Inl e
         | Inr utc \<Rightarrow>
             (case fromutc db tz utc of
                Inl e \<Rightarrow> Inl e
              | Inr r \<Rightarrow> Inr \<lparr> naive = r, tzinfo = tz \<rparr>)))"

definition utc_instant :: "tzdb \<Rightarrow> aware \<Rightarrow> int" where
  \<comment> \<open>the absolute instant of an aware value: its wall-clock value minus its offset, in
      microseconds\<close>
  "utc_instant db dt = wall_us (naive dt) - 1000000 * utcoffset db (tzinfo dt) (naive dt)"

definition coherent :: "tzdb \<Rightarrow> bool" where
  \<comment> \<open>what a zone database promises: the local value that \<open>fromutc\<close> returns has the
      offset that leads back to the UTC value it came from\<close>
  "coherent db =
     (\<forall>key u r. fromutc db key u = Inr r \<longrightarrow>
        wall_us r - 1000000 * utcoffset db key r = wall_us u)"

section \<open>Regular expressions\<close>

text \<open>
  The four patterns use digits, whitespace, literal characters, a character set, an
  optional item and one repetition of whitespace. Matching is case-insensitive
  (\<open>re.IGNORECASE\<close>). \<open>ends r s\<close> lists what is left of \<open>s\<close> after each way of matching
  \<open>r\<close> at its start, in the order a backtracking matcher tries them.
\<close>

datatype rx =
    Digit
  | Space
  | Lit char
  | AnyOf string
  | Opt rx
  | Plus rx
  | Seq "rx list"

definition isdigit :: "char \<Rightarrow> bool" where
  "isdigit c = (CHR ''0'' \<le> c \<and> c \<le> CHR ''9'')"

fun atom :: "rx \<Rightarrow> char \<Rightarrow> bool" where
  "atom Digit c = isdigit c"
| "atom Space c = isspace c"
| "atom (Lit x) c = (lower_char c = lower_char x)"
| "atom (AnyOf xs) c = (lower_char c \<in> set (map lower_char xs))"
| "atom _ c = False"

definition step :: "(char \<Rightarrow> bool) \<Rightarrow> string \<Rightarrow> string list" where
  \<comment> \<open>one character of a class\<close>
  "step P s = (case s of [] \<Rightarrow> [] | c # t \<Rightarrow> if P c then [t] else [])"

fun ends :: "rx \<Rightarrow> string \<Rightarrow> string list"
  and ends_seq :: "rx list \<Rightarrow> string \<Rightarrow> string list" where
  "ends Digit s = step (atom Digit) s"
| "ends Space s = step (atom Space) s"
| "ends (Lit x) s = step (atom (Lit x)) s"
| "ends (AnyOf xs) s = step (atom (AnyOf xs)) s"
| "ends (Opt r) s = ends r s @ [s]"
| "ends (Plus r) s = map (\<lambda>i. drop i s) (rev [1..<Suc (length (takeWhile (atom r) s))])"
| "ends (Seq rs) s = ends_seq rs s"
| "ends_seq [] s = [s]"
| "ends_seq (r # rs) s = concat (map (ends_seq rs) (ends r s))"

definition re_match :: "rx \<Rightarrow> string \<Rightarrow> bool" where
  \<comment> \<open>\<open>re.match('^...$', s, re.IGNORECASE)\<close> finds a match: \<open>$\<close> stands at the end of the
      string or before a newline that ends it.\<close>
  "re_match r s = list_ex (\<lambda>rest. rest = [] \<or> rest = [CHR 0x0A]) (ends r s)"

text \<open>The strings a pattern describes.\<close>

fun lang :: "rx \<Rightarrow> string set"
  and lang_seq :: "rx list \<Rightarrow> string set" where
  "lang (Opt r) = insert [] (lang r)"
| "lang (Plus r) = {cs. cs \<noteq> [] \<and> list_all (atom r) cs}"
| "lang (Seq rs) = lang_seq rs"
| "lang r = {cs. \<exists>c. cs = [c] \<and> atom r c}"
| "lang_seq [] = {[]}"
| "lang_seq (r # rs) = {cs. \<exists>a b. cs = a @ b \<and> a \<in> lang r \<and> b \<in> lang_seq rs}"

section \<open>Reading a time with a format\<close>

definition digit_val :: "char \<Rightarrow> int" where
  "digit_val c = int (of_char c) - 48"

definition int_of_digits :: "string \<Rightarrow> int" where
  "int_of_digits ds = foldl (\<lambda>a c. 10 * a + digit_val c) 0 ds"

text \<open>What \<open>strptime\<close> has read so far; a field not read keeps its default.\<close>

record fields =
  f_year :: int
  f_month :: int
  f_day :: int
  f_hour :: int
  f_minute :: int
  f_clock12 :: bool
  f_pm :: bool

definition read_num :: "nat \<Rightarrow> string \<Rightarrow> (int \<times> string) option" where
  \<comment> \<open>a number of one to \<open>n\<close> digits\<close>
  "read_num n s =
     (let ds = takeWhile isdigit (take n s) in
      if ds = [] then None else Some (int_of_digits ds, drop (length ds) s))"

definition directive :: "char \<Rightarrow> string \<Rightarrow> fields \<Rightarrow> (fields \<times> string) option" where
  "directive d s f =
     (if d = CHR ''Y'' then
        (case read_num 4 s of
           Some (v, rest) \<Rightarrow>
             if length s - length rest = 4 then Some (f\<lparr>f_year := v\<rparr>, rest) else None
         | None \<Rightarrow> None)
      else if d = CHR ''m'' then
        (case read_num 2 s of
           Some (v, rest) \<Rightarrow> if 1 \<le> v \<and> v \<le> 12 then Some (f\<lparr>f_month := v\<rparr>, rest) else None
         | None \<Rightarrow> None)
      else if d = CHR ''d'' then
        (case read_num 2 s of
           Some (v, rest) \<Rightarrow> if 1 \<le> v \<and> v \<le> 31 then Some (f\<lparr>f_day := v\<rparr>, rest) else None
         | None \<Rightarrow> None)
      else if d = CHR ''H'' then
        (case read_num 2 s of
           Some (v, rest) \<Rightarrow> if v \<le> 23 then Some (f\<lparr>f_hour := v\<rparr>, rest) else None
         | None \<Rightarrow> None)
      else if d = CHR ''I'' then
        (case read_num 2 s of
           Some (v, rest) \<Rightarrow>
             if 1 \<le> v \<and> v \<le> 12 then Some (f\<lparr>f_hour := v, f_clock12 := True\<rparr>, rest)
             else None
         | None \<Rightarrow> None)
      else if d = CHR ''M'' then
        (case read_num 2 s of
           Some (v, rest) \<Rightarrow> if v \<le> 59 then Some (f\<lparr>f_minute := v\<rparr>, rest) else None
         | None \<Rightarrow> None)
      else if d = CHR ''p'' then
        (case s of
           a # m # rest \<Rightarrow>
             if lower_char m = CHR ''m'' \<and> lower_char a = CHR ''a''
               then Some (f\<lparr>f_pm := False\<rparr>, rest)
             else if lower_char m = CHR ''m'' \<and> lower_char a = CHR ''p''
               then Some (f\<lparr>f_pm := True\<rparr>, rest)
             else None
         | _ \<Rightarrow> None)
      else None)"

fun scan :: "string \<Rightarrow> string \<Rightarrow> fields \<Rightarrow> fields option" where
  "scan [] s f = (if s = [] then Some f else None)"
| "scan (c # fmt) s f =
     (if c = CHR ''%'' then
        (case fmt of
           [] \<Rightarrow> None
         | d # fmt' \<Rightarrow>
             (case directive d s f of
                None \<Rightarrow> None
              | Some (f', rest) \<Rightarrow> scan fmt' rest f'))
      else if isspace c then
        (let rest = dropWhile isspace s in
         if length rest = length s then None else scan fmt rest f)
      else
        (case s of
           [] \<Rightarrow> None
         | x # rest \<Rightarrow> if lower_char x = lower_char c then scan fmt rest f else None))"

definition strptime :: "string \<Rightarrow> string \<Rightarrow> exn + datetime" where
  \<comment> \<open>\<open>datetime.strptime(data, fmt)\<close> for formats made of the directives
      \<open>%Y %m %d %H %I %M %p\<close>, each followed by a literal character, by \<open>%p\<close> or by the
      end of the format, as the four formats of the program are. The defaults are
      1900-01-01 00:00.\<close>
  "strptime data fmt =
     (case scan fmt data
             \<lparr> f_year = 1900, f_month = 1, f_day = 1, f_hour = 0, f_minute = 0,
               f_clock12 = False, f_pm = False \<rparr> of
        None \<Rightarrow>
          Inl (ValueError (''time data '' @ data @ '' does not match format '' @ fmt))
      | Some f \<Rightarrow>
          if f_year f < 1 \<or> 9999 < f_year f \<or> days_in_month (f_year f) (f_month f) < f_day f
          then Inl (ValueError ''day is out of range for month'')
          else
            Inr \<lparr> year = f_year f, month = f_month f, day = f_day f,
                  hour =
                    (if f_clock12 f then
                       (if f_pm f then (if f_hour f = 12 then 12 else f_hour f + 12)
                        else (if f_hour f = 12 then 0 else f_hour f))
                     else f_hour f),
                  minute = f_minute f, second = 0, microsecond = 0, fold = 0 \<rparr>)"

section \<open>Parsing a time expression\<close>

definition hour_meridiem :: rx where
  \<comment> \<open>\<open>^(\d{1,2})([ap]m)$\<close>\<close>
  "hour_meridiem = Seq [Digit, Opt Digit, AnyOf ''ap'', Lit CHR ''m'']"

definition hour_minute_meridiem :: rx where
  \<comment> \<open>\<open>^(\d{1,2}):(\d{2})([ap]m)$\<close>\<close>
  "hour_minute_meridiem =
     Seq [Digit, Opt Digit, Lit CHR '':'', Digit, Digit, AnyOf ''ap'', Lit CHR ''m'']"

definition hour_minute :: rx where
  \<comment> \<open>\<open>^(\d{1,2}):(\d{2})$\<close>\<close>
  "hour_minute = Seq [Digit, Opt Digit, Lit CHR '':'', Digit, Digit]"

definition date_time :: rx where
  \<comment> \<open>\<open>^(\d{4}-\d{2}-\d{2}\s+\d{1,2}:\d{2})$\<close>\<close>
  "date_time =
     Seq [Digit, Digit, Digit, Digit, Lit CHR ''-'', Digit, Digit, Lit CHR ''-'',
          Digit, Digit, Plus Space, Digit, Opt Digit, Lit CHR '':'', Digit, Digit]"

definition patterns :: "(rx \<times> string) list" where
  "patterns =
     [ (hour_meridiem, ''%I%p''),
       (hour_minute_meridiem, ''%I:%M%p''),
       (hour_minute, ''%H:%M''),
       (date_time, ''%Y-%m-%d %H:%M'') ]"

definition date :: "datetime \<Rightarrow> int \<times> int \<times> int" where
  \<comment> \<open>\<open>dt.date()\<close>: year, month and day\<close>
  "date dt = (year dt, month dt, day dt)"

definition attempt :: "tzdb \<Rightarrow> clock \<Rightarrow> string \<Rightarrow> string \<Rightarrow> string \<Rightarrow> exn + aware" where
  \<comment> \<open>the body of the \<open>try\<close> for one pattern whose shape matched\<close>
  "attempt db clk time_str source_tz fmt =
     (if CHR ''Y'' \<in> set fmt then
        (case strptime time_str fmt of
           Inl e \<Rightarrow> Inl e
         | Inr dt \<Rightarrow>
             (case ZoneInfo db source_tz of
                Inl e \<Rightarrow> Inl e
              | Inr tz \<Rightarrow> Inr \<lparr> naive = dt, tzinfo = tz \<rparr>))
      else
        (case date (localnow clk) of
           (today_year, today_month, today_day) \<Rightarrow>
             (case strptime (upper time_str) fmt of
                Inl e \<Rightarrow> Inl e
              | Inr dt \<Rightarrow>
                  (let dt = dt\<lparr> year := today_year, month := today_month, day := today_day \<rparr>
                   in case ZoneInfo db source_tz of
                        Inl e \<Rightarrow> Inl e
                      | Inr tz \<Rightarrow> Inr \<lparr> naive = dt, tzinfo = tz \<rparr>))))"

fun try_patterns ::
  "tzdb \<Rightarrow> clock \<Rightarrow> string \<Rightarrow> string \<Rightarrow> (rx \<times> string) list \<Rightarrow> exn + aware" where
  "try_patterns db clk time_str source_tz [] =
     Inl (ValueError (''Could not parse time: '' @ time_str))"
| "try_patterns db clk time_str source_tz ((pattern, fmt) # rest) =
     (if re_match pattern time_str then
        (case attempt db clk time_str source_tz fmt of
           Inl (ValueError msg) \<Rightarrow> try_patterns db clk time_str source_tz rest
         | Inl e \<Rightarrow> Inl e
         | Inr dt \<Rightarrow> Inr dt)
      else try_patterns db clk time_str source_tz rest)"

definition parse_time_input :: "tzdb \<Rightarrow> clock \<Rightarrow> string \<Rightarrow> string \<Rightarrow> exn + aware" where
  "parse_time_input db clk time_str0 source_tz =
     (let time_str = strip time_str0 in
      if lower time_str = ''now'' then
        (case ZoneInfo db source_tz of
           Inl e \<Rightarrow> Inl e
         | Inr tz \<Rightarrow> datetime_now db clk tz)
      else try_patterns db clk time_str source_tz patterns)"

section \<open>Conversion\<close>

datatype pyval = PyStr string | PyDatetime aware

fun str_exn :: "exn \<Rightarrow> string" where
  \<comment> \<open>\<open>str(e)\<close>; a \<open>ZoneInfoNotFoundError\<close> is a \<open>KeyError\<close>, whose text is quoted\<close>
  "str_exn (ValueError msg) = msg"
| "str_exn (OverflowError msg) = msg"
| "str_exn (ZoneInfoNotFoundError msg) = [CHR 0x27] @ msg @ [CHR 0x27]"

definition convert_steps ::
  "TimeZoneConverter \<Rightarrow> tzdb \<Rightarrow> clock \<Rightarrow> string \<Rightarrow> string \<Rightarrow> string
     \<Rightarrow> exn + (string \<times> pyval) list" where
  \<comment> \<open>the body of the \<open>try\<close> of \<open>convert_time\<close>\<close>
  "convert_steps self db clk time_str from_tz to_tz =
     (case normalize_timezone self from_tz of
        Inl e \<Rightarrow> Inl e
      | Inr source_tz \<Rightarrow>
     (case normalize_timezone self to_tz of
        Inl e \<Rightarrow> Inl e
      | Inr target_tz \<Rightarrow>
     (case parse_time_input db clk time_str source_tz of
        Inl e \<Rightarrow> Inl e
      | Inr source_time \<Rightarrow>
     (case ZoneInfo db target_tz of
        Inl e \<Rightarrow> Inl e
      | Inr tz \<Rightarrow>
     (case astimezone db source_time tz of
        Inl e \<Rightarrow> Inl e
      | Inr target_time \<Rightarrow>
          Inr [ (''source_time'', PyDatetime source_time),
                (''target_time'', PyDatetime target_time),
                (''source_tz'', PyStr source_tz),
                (''target_tz'', PyStr target_tz) ])))))"

definition convert_time ::
  "TimeZoneConverter \<Rightarrow> tzdb \<Rightarrow> clock \<Rightarrow> string \<Rightarrow> string \<Rightarrow> string
     \<Rightarrow> (string \<times> pyval) list" where
  \<comment> \<open>The result is a Python \<open>dict\<close>, written as the list of its items.\<close>
  "convert_time self db clk time_str from_tz to_tz =
     (case convert_steps self db clk time_str from_tz to_tz of
        Inr result \<Rightarrow> result
      | Inl e \<Rightarrow> [ (''error'', PyStr (str_exn e)) ])"

section \<open>A small zone database\<close>

definition mk_datetime :: "int \<Rightarrow> int \<Rightarrow> int \<Rightarrow> int \<Rightarrow> int \<Rightarrow> datetime" where
  \<comment> \<open>\<open>datetime(y, m, d, H, M)\<close>\<close>
  "mk_datetime y m d H M =
     \<lparr> year = y, month = m, day = d, hour = H, minute = M, second = 0, microsecond = 0,
       fold = 0 \<rparr>"

text \<open>
  A zone either keeps one offset, or keeps a standard offset and adds an hour between two
  instants, given as UTC wall-clock values in microseconds. Offsets are in seconds.
\<close>

datatype zone_rule = Fixed int | Summer int int int

fun offset_at_utc :: "zone_rule \<Rightarrow> int \<Rightarrow> int" where
  "offset_at_utc (Fixed off) w = off"
| "offset_at_utc (Summer std s e) w = (if s \<le> w \<and> w < e then std + 3600 else std)"

fun fold_at_utc :: "zone_rule \<Rightarrow> int \<Rightarrow> int" where
  \<comment> \<open>1 during the hour after summer time ends, when wall-clock values repeat\<close>
  "fold_at_utc (Fixed off) w = 0"
| "fold_at_utc (Summer std s e) w = (if e \<le> w \<and> w < e + 3600000000 then 1 else 0)"

fun offset_at_local :: "zone_rule \<Rightarrow> int \<Rightarrow> int \<Rightarrow> int" where
  \<comment> \<open>the offset of a local wall-clock value; \<open>fold\<close> chooses the side of a
      transition for values that are skipped or repeated\<close>
  "offset_at_local (Fixed off) w f = off"
| "offset_at_local (Summer std s e) w f =
     (let s' = s + std * 1000000; e' = e + std * 1000000 in
      if w < s' then std
      else if w < s' + 3600000000 then (if f = 0 then std else std + 3600)
      else if w < e' then std + 3600
      else if w < e' + 3600000000 then (if f = 0 then std + 3600 else std)
      else std)"

fun wf_rule :: "zone_rule \<Rightarrow> bool" where
  "wf_rule (Fixed off) = True"
| "wf_rule (Summer std s e) = (s + 3600000000 \<le> e)"

definition rule_of :: "(string \<times> zone_rule) list \<Rightarrow> string \<Rightarrow> zone_rule" where
  "rule_of rules key = (case map_of rules key of Some r \<Rightarrow> r | None \<Rightarrow> Fixed 0)"

definition rules_tzdb :: "(string \<times> zone_rule) list \<Rightarrow> tzdb" where
  "rules_tzdb rules =
     \<lparr> has_zone = (\<lambda>key. map_of rules key \<noteq> None),
       utcoffset = (\<lambda>key dt. offset_at_local (rule_of rules key) (wall_us dt) (fold dt)),
       fromutc = (\<lambda>key u.
         case datetime_add u (offset_at_utc (rule_of rules key) (wall_us u)) of
           Inl e \<Rightarrow> Inl e
         | Inr r \<Rightarrow> Inr (r\<lparr> fold := fold_at_utc (rule_of rules key) (wall_us u) \<rparr>)) \<rparr>"

definition demo_tzdb :: tzdb where
  \<comment> \<open>the zones of the small catalog, with their present offsets and, where they
      observe it, the daylight saving time of 2024\<close>
  "demo_tzdb =
     rules_tzdb
       [ (''UTC'', Fixed 0),
         (''Africa/Abidjan'', Fixed 0),
         (''EST'', Fixed (- 18000)),
         (''Asia/Kolkata'', Fixed 19800),
         (''Asia/Singapore'', Fixed 28800),
         (''Singapore'', Fixed 28800),
         (''Asia/Tokyo'', Fixed 32400),
         (''America/New_York'',
            Summer (- 18000) (wall_us (mk_datetime 2024 3 10 7 0))
              (wall_us (mk_datetime 2024 11 3 6 0))),
         (''America/Los_Angeles'',
            Summer (- 28800) (wall_us (mk_datetime 2024 3 10 10 0))
              (wall_us (mk_datetime 2024 11 3 9 0))),
         (''Europe/London'',
            Summer 0 (wall_us (mk_datetime 2024 3 31 1 0))
              (wall_us (mk_datetime 2024 10 27 1 0))),
         (''Europe/Budapest'',
            Summer 3600 (wall_us (mk_datetime 2024 3 31 1 0))
              (wall_us (mk_datetime 2024 10 27 1 0))) ]"

definition demo_clock :: clock where
  \<comment> \<open>a machine in New York on 2024-01-15 at 20:30 local time\<close>
  "demo_clock = \<lparr> utcnow = mk_datetime 2024 1 16 1 30, localnow = mk_datetime 2024 1 15 20 30 \<rparr>"

definition demo_clock_late :: clock where
  \<comment> \<open>the same machine later that day, at 23:59 local time\<close>
  "demo_clock_late =
     \<lparr> utcnow = mk_datetime 2024 1 16 4 59, localnow = mk_datetime 2024 1 15 23 59 \<rparr>"

definition demo_clock_next_day :: clock where
  \<comment> \<open>the same machine one day later\<close>
  "demo_clock_next_day =
     \<lparr> utcnow = mk_datetime 2024 1 17 1 30, localnow = mk_datetime 2024 1 16 20 30 \<rparr>"

section \<open>Facts about text and the catalog\<close>


lemma all_timezones_init: "all_timezones (init available) = sorted_list_of_fset available"
  by (simp add: init_def)

lemma set_all_timezones_init: "set (all_timezones (init available)) = fset available"
  by (simp add: init_def)

lemma sorted_all_timezones_init: "sorted (all_timezones (init available))"
  by (simp add: init_def sorted_list_of_fset.rep_eq)

lemma find_sorted_least:
  assumes "sorted xs" and "find P xs = Some x" and "y \<in> set xs" and "P y"
  shows "x \<le> y"
  using assms
proof (induction xs)
  case Nil
  then show ?case by simp
next
  case (Cons a xs)
  show ?case
  proof (cases "P a")
    case True
    with Cons.prems have "x = a" by simp
    with Cons.prems show ?thesis by auto
  next
    case False
    with Cons.prems have "find P xs = Some x" "y \<in> set xs" "sorted xs" by auto
    with Cons.IH Cons.prems show ?thesis by simp
  qed
qed

lemma find_Some_holds: "find P xs = Some x \<Longrightarrow> x \<in> set xs \<and> P x"
  by (induction xs) (auto split: if_splits)

lemma find_None_all: "find P xs = None \<Longrightarrow> y \<in> set xs \<Longrightarrow> \<not> P y"
  by (induction xs) (auto split: if_splits)


section \<open>Zone resolution: the claims\<close>

text \<open>
  C2. A token whose trimmed, uppercased form is a key of the abbreviation table resolves to
  the zone the table maps that key to, whatever the catalog holds: the table is consulted
  before the exact and the fuzzy catalog lookups.
\<close>

theorem abbreviation_takes_precedence:
  assumes "map_of (timezone_abbrevs (init available)) (upper (strip token)) = Some z"
  shows "normalize_timezone (init available) token = Inr z"
  using assms by (simp add: normalize_timezone_def)

theorem abbreviation_takes_precedence_witness:
  "map_of (timezone_abbrevs (init demo_zones)) (upper (strip '' est '')) = Some ''America/New_York''
   \<and> ''EST'' |\<in>| demo_zones
   \<and> str_in (lower ''est'') (lower ''Europe/Budapest'')
   \<and> normalize_timezone (init demo_zones) '' est '' = Inr ''America/New_York''
   \<and> upper (strip (CHR 0xA0 # ''utc'' @ [CHR 0x85])) = ''UTC''
   \<and> normalize_timezone (init demo_zones) (CHR 0xA0 # ''utc'' @ [CHR 0x85]) = Inr ''UTC''"
proof -
  have h: "map_of (timezone_abbrevs (init demo_zones)) (upper (strip '' est ''))
             = Some ''America/New_York''"
    by code_simp
  have m: "''EST'' |\<in>| demo_zones" by code_simp
  have s: "str_in (lower ''est'') (lower ''Europe/Budapest'')" by code_simp
  have u: "upper (strip (CHR 0xA0 # ''utc'' @ [CHR 0x85])) = ''UTC''" by code_simp
  have h': "map_of (timezone_abbrevs (init demo_zones))
              (upper (strip (CHR 0xA0 # ''utc'' @ [CHR 0x85]))) = Some ''UTC''"
    by code_simp
  from abbreviation_takes_precedence [OF h] abbreviation_takes_precedence [OF h'] h m s u
  show ?thesis by simp
qed

text \<open>
  C3, as the code has it. The claim reads: every identifier of the catalog resolves to itself.
  The abbreviation table is consulted first, so a catalog identifier whose uppercase form is
  one of its keys resolves to the zone the table gives: \<open>EST\<close>, an identifier of the IANA
  database, resolves to \<open>America/New_York\<close>.
\<close>

theorem catalog_entry_counterexample:
  "''EST'' |\<in>| demo_zones \<and> strip ''EST'' = ''EST''
   \<and> normalize_timezone (init demo_zones) ''EST'' = Inr ''America/New_York''"
  by code_simp

text \<open>
  C3, amended. A catalog identifier without surrounding whitespace resolves to itself,
  unless its uppercase form is a key of the abbreviation table: then it resolves to the
  zone the table maps that key to.
\<close>

theorem catalog_entry_resolves:
  assumes "z |\<in>| available" and "strip z = z"
  shows "normalize_timezone (init available) z =
           Inr (case map_of (timezone_abbrevs (init available)) (upper z) of
                  None \<Rightarrow> z | Some full \<Rightarrow> full)"
  using assms by (simp add: normalize_timezone_def set_all_timezones_init split: option.split)

theorem catalog_entry_resolves_witness:
  "''Asia/Tokyo'' |\<in>| demo_zones \<and> strip ''Asia/Tokyo'' = ''Asia/Tokyo''
   \<and> map_of (timezone_abbrevs (init demo_zones)) (upper ''Asia/Tokyo'') = None
   \<and> normalize_timezone (init demo_zones) ''Asia/Tokyo'' = Inr ''Asia/Tokyo''"
proof -
  have m: "''Asia/Tokyo'' |\<in>| demo_zones" by code_simp
  have s: "strip ''Asia/Tokyo'' = ''Asia/Tokyo''" by code_simp
  have k: "map_of (timezone_abbrevs (init demo_zones)) (upper ''Asia/Tokyo'') = None"
    by code_simp
  from catalog_entry_resolves [OF m s] m s k show ?thesis by simp
qed

text \<open>
  C1. Let the trimmed token be neither a key of the abbreviation table (after uppercasing)
  nor an identifier of the catalog. Then resolution succeeds exactly when some catalog
  identifier contains the lowercased trimmed token in its lowercase form, and the result is
  the first such identifier of the sorted catalog, that is the least one in the order of
  the catalog. Otherwise it raises \<open>ValueError\<close> with the message \<open>Unknown timezone\<close>.
\<close>

theorem fuzzy_pass_first_sorted_match:
  assumes "map_of (timezone_abbrevs (init available)) (upper (strip token)) = None"
    and "strip token |\<notin>| available"
  shows "case normalize_timezone (init available) token of
           Inr z \<Rightarrow>
             z |\<in>| available \<and> str_in (lower (strip token)) (lower z) \<and>
             Some z = find (\<lambda>tz. str_in (lower (strip token)) (lower tz))
                        (sorted_list_of_fset available) \<and>
             (\<forall>z'. z' |\<in>| available \<and> str_in (lower (strip token)) (lower z') \<longrightarrow> z \<le> z')
         | Inl e \<Rightarrow>
             e = ValueError (''Unknown timezone: '' @ strip token) \<and>
             (\<forall>z'. z' |\<in>| available \<longrightarrow> \<not> str_in (lower (strip token)) (lower z'))"
proof -
  let ?P = "\<lambda>tz. str_in (lower (strip token)) (lower tz)"
  let ?xs = "all_timezones (init available)"
  have nz: "normalize_timezone (init available) token =
              (case find ?P ?xs of Some tz \<Rightarrow> Inr tz
               | None \<Rightarrow> Inl (ValueError (''Unknown timezone: '' @ strip token)))"
    using assms by (simp add: normalize_timezone_def set_all_timezones_init Let_def)
  show ?thesis
  proof (cases "find ?P ?xs")
    case None
    then have "\<forall>z'. z' |\<in>| available \<longrightarrow> \<not> ?P z'"
      using find_None_all [of ?P ?xs] by (simp add: set_all_timezones_init)
    with None nz show ?thesis by simp
  next
    case (Some z)
    have "z |\<in>| available" "?P z"
      using find_Some_holds [OF Some] by (simp_all add: set_all_timezones_init)
    moreover have "\<forall>z'. z' |\<in>| available \<and> ?P z' \<longrightarrow> z \<le> z'"
      using find_sorted_least [OF sorted_all_timezones_init Some]
      by (simp add: set_all_timezones_init)
    ultimately show ?thesis using Some nz by (simp add: all_timezones_init)
  qed
qed

theorem fuzzy_pass_first_sorted_match_witness:
  "map_of (timezone_abbrevs (init demo_zones)) (upper (strip (CHR 0xA0 # ''sing ''))) = None
   \<and> strip (CHR 0xA0 # ''sing '') = ''sing''
   \<and> strip (CHR 0xA0 # ''sing '') |\<notin>| demo_zones
   \<and> normalize_timezone (init demo_zones) (CHR 0xA0 # ''sing '') = Inr ''Asia/Singapore''
   \<and> ''Singapore'' |\<in>| demo_zones
   \<and> str_in (lower (strip (CHR 0xA0 # ''sing ''))) (lower ''Singapore'')
   \<and> ''Asia/Singapore'' \<le> ''Singapore''
   \<and> normalize_timezone (init demo_zones) ''nonexistent-zzz-token''
       = Inl (ValueError ''Unknown timezone: nonexistent-zzz-token'')"
proof -
  have f: "normalize_timezone (init demo_zones) ''nonexistent-zzz-token''
             = Inl (ValueError ''Unknown timezone: nonexistent-zzz-token'')"
    by code_simp
  have k: "map_of (timezone_abbrevs (init demo_zones)) (upper (strip (CHR 0xA0 # ''sing '')))
             = None"
    by code_simp
  have t: "strip (CHR 0xA0 # ''sing '') = ''sing''" by code_simp
  have m: "strip (CHR 0xA0 # ''sing '') |\<notin>| demo_zones" by code_simp
  have r: "normalize_timezone (init demo_zones) (CHR 0xA0 # ''sing '') = Inr ''Asia/Singapore''"
    by code_simp
  have a: "''Singapore'' |\<in>| demo_zones" by code_simp
  have b: "str_in (lower (strip (CHR 0xA0 # ''sing ''))) (lower ''Singapore'')" by code_simp
  from fuzzy_pass_first_sorted_match [OF k m] r a b
  have "''Asia/Singapore'' \<le> ''Singapore''" by simp
  with k t m r a b f show ?thesis by simp
qed



section \<open>Facts about the calendar\<close>

lemma div_step:
  fixes y k :: int
  assumes "0 < k"
  shows "y div k = (y - 1) div k + (if y mod k = 0 then 1 else 0)"
proof (cases "y mod k = 0")
  case True
  have "y - 1 = k * (y div k - 1) + (k - 1)" using True
    by (simp add: algebra_simps) (metis True mult.commute mult_div_mod_eq add.right_neutral)
  then have "(y - 1) div k = y div k - 1"
    using assms by (intro int_div_pos_eq [where r = "k - 1"]) auto
  with True show ?thesis by simp
next
  case False
  have r: "0 < y mod k" "y mod k < k" using assms False
    by (auto simp: le_less dest: pos_mod_sign [of k y] pos_mod_bound [of k y])
  have "y - 1 = k * (y div k) + (y mod k - 1)" by simp
  then have "(y - 1) div k = y div k"
    using r by (intro int_div_pos_eq [where r = "y mod k - 1"]) auto
  with False show ?thesis by simp
qed

lemma days_before_year_step:
  "days_before_year (y + 1) = days_before_year y + days_in_year y"
proof -
  have i1: "y mod 4 = 0" if "y mod 100 = 0" using that by presburger
  have i2: "y mod 100 = 0" if "y mod 400 = 0" using that by presburger
  have e4: "y div 4 = (y - 1) div 4 + (if y mod 4 = 0 then 1 else 0)"
    by (rule div_step) simp
  have e100: "y div 100 = (y - 1) div 100 + (if y mod 100 = 0 then 1 else 0)"
    by (rule div_step) simp
  have e400: "y div 400 = (y - 1) div 400 + (if y mod 400 = 0 then 1 else 0)"
    by (rule div_step) simp
  have "days_before_year (y + 1) = y * 365 + y div 4 - y div 100 + y div 400"
    by (simp add: days_before_year_def)
  also have "\<dots> = days_before_year y + 365 + (if y mod 4 = 0 then 1 else 0)
                  - (if y mod 100 = 0 then 1 else 0) + (if y mod 400 = 0 then 1 else 0)"
    unfolding e4 e100 e400 by (simp add: days_before_year_def Let_def algebra_simps)
  also have "\<dots> = days_before_year y + days_in_year y"
    using i1 i2 by (cases "y mod 4 = 0"; cases "y mod 100 = 0"; cases "y mod 400 = 0")
      (simp_all add: days_in_year_def is_leap_def)
  finally show ?thesis .
qed

lemma days_in_year_ge: "365 \<le> days_in_year y" "days_in_year y \<le> 366"
  by (simp_all add: days_in_year_def)

lemma find_year_bounds:
  assumes "days_before_year y < n" and "n \<le> days_before_year (y + int k + 1)"
  shows "days_before_year (find_year k y n) < n \<and>
         n \<le> days_before_year (find_year k y n + 1)"
  using assms
proof (induction k arbitrary: y)
  case 0
  then show ?case by simp
next
  case (Suc k)
  show ?case
  proof (cases "days_before_year (y + 1) < n")
    case True
    have "days_before_year (find_year k (y + 1) n) < n \<and>
          n \<le> days_before_year (find_year k (y + 1) n + 1)"
      using True Suc.prems(2) by (intro Suc.IH) (simp_all add: algebra_simps)
    with True show ?thesis by simp
  next
    case False
    with Suc.prems show ?thesis by simp
  qed
qed

lemma days_before_year_lower: "0 \<le> q \<Longrightarrow> 365 * q \<le> days_before_year (q + 1)"
proof -
  assume q: "0 \<le> q"
  have "q div 100 \<le> q div 4" using q by (intro zdiv_mono2) simp_all
  moreover have "0 \<le> q div 400" using q by (simp add: pos_imp_zdiv_nonneg_iff)
  ultimately show ?thesis by (simp add: days_before_year_def)
qed

lemma days_before_year_upper: "0 < q \<Longrightarrow> days_before_year (q + 1) < 366 * q"
proof -
  assume q: "0 < q"
  have a: "q div 400 \<le> q div 100" using q by (intro zdiv_mono2) simp_all
  have "4 * (q div 4) \<le> q" by (simp add: algebra_simps)
  then have b: "q div 4 < q" using q by linarith
  show ?thesis using a b by (simp add: days_before_year_def)
qed

lemma days_before_month_step:
  assumes "1 \<le> m" and "m \<le> 11"
  shows "days_before_month y (m + 1) = days_before_month y m + days_in_month y m"
proof -
  from assms have "m = 1 \<or> m = 2 \<or> m = 3 \<or> m = 4 \<or> m = 5 \<or> m = 6 \<or> m = 7 \<or> m = 8
      \<or> m = 9 \<or> m = 10 \<or> m = 11" by arith
  then show ?thesis
    by (elim disjE) (simp_all add: days_before_month_def days_in_month_def)
qed

lemma find_month_sum:
  assumes "1 \<le> m" and "m + int k \<le> 12" and "find_month k y m r = (m', d)"
  shows "days_before_month y m' + d = days_before_month y m + r"
  using assms
proof (induction k arbitrary: m r)
  case 0
  then show ?case by simp
next
  case (Suc k)
  show ?case
  proof (cases "days_in_month y m < r")
    case True
    with Suc.prems have f: "find_month k y (m + 1) (r - days_in_month y m) = (m', d)"
      by simp
    have "days_before_month y m' + d
            = days_before_month y (m + 1) + (r - days_in_month y m)"
      using Suc.prems f by (intro Suc.IH) simp_all
    also have "\<dots> = days_before_month y m + r"
      using Suc.prems by (simp add: days_before_month_step)
    finally show ?thesis .
  next
    case False
    with Suc.prems show ?thesis by simp
  qed
qed

lemma year_guess_low:
  assumes "1 \<le> n"
  shows "days_before_year (n div 366 + 1) < n"
proof (cases "n div 366 = 0")
  case True
  with assms show ?thesis by (simp add: days_before_year_def)
next
  case False
  have "0 \<le> n div 366" using assms by (simp add: pos_imp_zdiv_nonneg_iff)
  with False have q: "0 < n div 366" by simp
  have "366 * (n div 366) \<le> n" by (simp add: algebra_simps)
  with days_before_year_upper [OF q] show ?thesis by simp
qed

lemma year_guess_high:
  assumes "1 \<le> n"
  shows "n \<le> days_before_year ((n div 366 + 1) + int (nat (n div 36500 + 1)) + 1)"
proof -
  let ?A = "n div 366" and ?B = "n div 36500"
  have A0: "0 \<le> ?A" and B0: "0 \<le> ?B" using assms by (simp_all add: pos_imp_zdiv_nonneg_iff)
  have "?B = (n div 100) div 365" by (simp add: zdiv_zmult2_eq)
  then have "n div 100 = 365 * ?B + (n div 100) mod 365" by simp
  moreover have "(n div 100) mod 365 < 365" by simp
  ultimately have c: "n div 100 < 365 * ?B + 365" by linarith
  have "?A \<le> n div 100" using assms by (intro zdiv_mono2) simp_all
  with c have d: "?A < 365 * ?B + 365" by simp
  have "n = 366 * ?A + n mod 366" by simp
  moreover have "n mod 366 < 366" by simp
  ultimately have e: "n < 366 * ?A + 366" by linarith
  have "365 * (?A + ?B + 2) \<le> days_before_year ((?A + ?B + 2) + 1)"
    using A0 B0 by (intro days_before_year_lower) simp
  moreover have "n \<le> 365 * (?A + ?B + 2)" using d e by simp
  moreover have "(?A + 1) + int (nat (?B + 1)) + 1 = (?A + ?B + 2) + 1" using B0 by simp
  ultimately show ?thesis by simp
qed

lemma ord2ymd_inverse:
  assumes "1 \<le> n" and "ord2ymd n = (y, m, d)"
  shows "ymd2ord y m d = n"
proof -
  let ?y = "find_year (nat (n div 36500 + 1)) (n div 366 + 1) n"
  from assms(2) have y: "y = ?y" and f: "find_month 11 y 1 (n - days_before_year y) = (m, d)"
    by (auto simp: ord2ymd_def Let_def split: prod.splits)
  have "days_before_month y m + d = days_before_month y 1 + (n - days_before_year y)"
    using f by (intro find_month_sum [where k = 11]) simp_all
  then show ?thesis by (simp add: ymd2ord_def days_before_month_def)
qed

lemma of_wall_us_inverse:
  assumes "of_wall_us w = Some dt"
  shows "wall_us dt = w"
proof -
  let ?n = "w div 86400000000 + 1" and ?r = "w mod 86400000000"
  obtain y m d where o: "ord2ymd ?n = (y, m, d)" by (cases "ord2ymd ?n") auto
  from assms o have n: "1 \<le> ?n"
    and dt: "dt = \<lparr> year = y, month = m, day = d,
                  hour = ?r div 3600000000, minute = ?r div 60000000 mod 60,
                  second = ?r div 1000000 mod 60, microsecond = ?r mod 1000000,
                  fold = 0 \<rparr>"
    by (auto simp: of_wall_us_def Let_def split: if_splits)
  have ord: "ymd2ord y m d = ?n" using n o by (rule ord2ymd_inverse)
  define q where "q = w div 86400000000"
  define rr where "rr = w mod 86400000000"
  define s where "s = rr div 1000000"
  define t where "t = s div 60"
  define u where "u = rr mod 1000000"
  define a where "a = s mod 60"
  define b where "b = t mod 60"
  define c where "c = t div 60"
  have r: "rr = s * 1000000 + u" by (simp add: s_def u_def)
  have s: "s = t * 60 + a" by (simp add: t_def a_def)
  have t: "t = c * 60 + b" by (simp add: c_def b_def)
  have m1: "rr div 60000000 = t" by (simp add: t_def s_def zdiv_zmult2_eq)
  have h1: "rr div 3600000000 = c" by (simp add: c_def t_def s_def zdiv_zmult2_eq)
  have w: "w = q * 86400000000 + rr" by (simp add: q_def rr_def)
  have "wall_us dt = (((q * 24 + c) * 60 + b) * 60 + a) * 1000000 + u"
    unfolding dt wall_us_def
    by (simp add: ord m1 h1 rr_def [symmetric] q_def [symmetric] s_def [symmetric]
        a_def [symmetric] b_def [symmetric] u_def [symmetric])
  also have "\<dots> = q * 86400000000 + rr"
    unfolding r s t by (simp add: algebra_simps)
  also have "\<dots> = w" using w by simp
  finally show ?thesis .
qed

lemma datetime_add_wall:
  assumes "datetime_add dt s = Inr r"
  shows "wall_us r = wall_us dt + 1000000 * s"
  using assms of_wall_us_inverse [of "wall_us dt + s * 1000000" r]
  by (auto simp: datetime_add_def split: option.splits)

section \<open>Facts about the patterns\<close>

lemma step_lang:
  assumes "rest \<in> set (step (atom r) s)"
  shows "\<exists>c. s = [c] @ rest \<and> atom r c"
  using assms by (cases s) (auto simp: step_def split: if_splits)

lemma ends_lang:
  "rest \<in> set (ends r s) \<Longrightarrow> \<exists>pre \<in> lang r. s = pre @ rest"
  "rest \<in> set (ends_seq rs s) \<Longrightarrow> \<exists>pre \<in> lang_seq rs. s = pre @ rest"
proof (induction r s and rs s arbitrary: rest and rest rule: ends_ends_seq.induct)
  case (1 s)
  then show ?case using step_lang [where r = Digit and s = s and rest = rest] by auto
next
  case (2 s)
  then show ?case using step_lang [where r = Space and s = s and rest = rest] by auto
next
  case (3 x s)
  then show ?case using step_lang [where r = "Lit x" and s = s and rest = rest] by auto
next
  case (4 xs s)
  then show ?case using step_lang [where r = "AnyOf xs" and s = s and rest = rest] by auto
next
  case (5 r s)
  then show ?case by auto
next
  case (6 r s)
  then obtain i where i: "1 \<le> i" "i \<le> length (takeWhile (atom r) s)" and rest: "rest = drop i s"
    by auto
  have "take i s = take i (takeWhile (atom r) s)"
    using i(2) by (metis takeWhile_dropWhile_id take_append diff_is_0_eq take_0 append_Nil2)
  then have "set (take i s) \<subseteq> set (takeWhile (atom r) s)" by (metis set_take_subset)
  then have "list_all (atom r) (take i s)"
    by (auto simp: list_all_iff dest: set_takeWhileD)
  moreover have "take i s \<noteq> []" using i by (cases s) auto
  ultimately have "take i s \<in> lang (Plus r)" by simp
  moreover have "s = take i s @ rest" by (simp add: rest)
  ultimately show ?case by blast
next
  case (7 rs s)
  then show ?case by simp
next
  case (8 s)
  then show ?case by simp
next
  case (9 r rs s)
  from "9.prems" obtain mid where mid: "mid \<in> set (ends r s)" and r: "rest \<in> set (ends_seq rs mid)"
    by auto
  from "9.IH"(1) [OF mid] obtain a where a: "a \<in> lang r" "s = a @ mid" by blast
  from "9.IH"(2) [OF mid r] obtain b where b: "b \<in> lang_seq rs" "mid = b @ rest" by blast
  from a b have "a @ b \<in> lang_seq (r # rs)" "s = (a @ b) @ rest" by auto
  then show ?case by blast
qed

lemma isspace_newline: "isspace (CHR 0x0A)"
  by (simp add: isspace_def)

lemma strip_no_trailing_space:
  assumes "strip s \<noteq> []"
  shows "\<not> isspace (last (strip s))"
proof -
  let ?xs = "dropWhile isspace (rev (dropWhile isspace s))"
  from assms have ne: "?xs \<noteq> []" by (simp add: strip_def)
  then have "\<not> isspace (hd ?xs)" by (rule hd_dropWhile)
  moreover have "last (strip s) = hd ?xs" using ne by (simp add: strip_def last_rev)
  ultimately show ?thesis by simp
qed

lemma re_match_stripped:
  assumes "re_match r (strip s)"
  shows "strip s \<in> lang r"
proof -
  from assms obtain rest where rest: "rest \<in> set (ends r (strip s))"
    and e: "rest = [] \<or> rest = [CHR 0x0A]"
    by (auto simp: re_match_def list_ex_iff)
  from ends_lang(1) [OF rest] obtain pre where pre: "pre \<in> lang r" "strip s = pre @ rest"
    by blast
  show ?thesis
  proof (cases "rest = []")
    case True
    with pre show ?thesis by simp
  next
    case False
    with e pre have "strip s \<noteq> []" "last (strip s) = CHR 0x0A" by auto
    with strip_no_trailing_space [of s] isspace_newline show ?thesis by simp
  qed
qed

lemma digit_facts:
  assumes "isdigit c"
  shows "lower_char c = c" "upper_char c = c" "\<not> isspace c" "c \<noteq> CHR ''n''"
    "c \<noteq> CHR ''m''" "c \<noteq> CHR ''M''"
  using assms
  by (auto simp: isdigit_def lower_char_def upper_char_def isspace_def less_eq_char_def)

lemma lower_char_m: "lower_char c = CHR ''m'' \<Longrightarrow> \<not> isdigit c"
  by (auto simp: isdigit_def lower_char_def less_eq_char_def split: if_splits)

lemma hour_meridiem_shape:
  assumes "t \<in> lang hour_meridiem"
  shows "(length t = 3 \<or> length t = 4) \<and> isdigit (hd t) \<and> lower_char (last t) = CHR ''m''"
  using assms by (auto simp: hour_meridiem_def lower_char_def)

lemma hour_minute_meridiem_shape:
  assumes "t \<in> lang hour_minute_meridiem"
  shows "(length t = 6 \<or> length t = 7) \<and> isdigit (hd t)"
  using assms by (auto simp: hour_minute_meridiem_def)

lemma hour_minute_shape:
  assumes "t \<in> lang hour_minute"
  shows "(length t = 4 \<or> length t = 5) \<and> isdigit (hd t) \<and> isdigit (last t)"
  using assms by (auto simp: hour_minute_def)

lemma date_time_shape:
  assumes "t \<in> lang date_time"
  shows "15 \<le> length t \<and> isdigit (hd t)"
  using assms by (auto simp: date_time_def Suc_le_eq)

lemma strptime_error: "strptime d f = Inl e \<Longrightarrow> \<exists>msg. e = ValueError msg"
  by (auto simp: strptime_def split: option.splits if_splits)

lemma matched_not_now:
  assumes "isdigit (hd t)" and "t \<noteq> []"
  shows "lower t \<noteq> ''now''"
proof
  assume "lower t = ''now''"
  with assms(2) have "lower_char (hd t) = CHR ''n''" by (cases t) (auto simp: lower_def)
  with digit_facts(1,4) [OF assms(1)] show False by simp
qed

text \<open>
At most one of the four patterns matches a trimmed expression.
\<close>

lemma patterns_exclusive:
  assumes "(p, f) \<in> set patterns" and "(p', f') \<in> set patterns"
    and "re_match p (strip s)" and "re_match p' (strip s)"
  shows "p = p' \<and> f = f'"
proof -
  note sh = hour_meridiem_shape hour_minute_meridiem_shape hour_minute_shape date_time_shape
  from assms(3,4) have l: "strip s \<in> lang p" "strip s \<in> lang p'"
    by (simp_all add: re_match_stripped)
  from assms(1,2) l show ?thesis
    by (auto simp: patterns_def dest!: sh dest: lower_char_m)
qed

lemma matched_shape:
  assumes "(p, f) \<in> set patterns" and "re_match p (strip s)"
  shows "strip s \<noteq> [] \<and> isdigit (hd (strip s))"
proof -
  note sh = hour_meridiem_shape hour_minute_meridiem_shape hour_minute_shape date_time_shape
  from assms(2) have "strip s \<in> lang p" by (rule re_match_stripped)
  with assms(1) show ?thesis by (auto simp: patterns_def dest!: sh)
qed

text \<open>
  The loop over the patterns, when exactly the pattern \<open>p\<close> matches: the outcome is that
  of the attempt with its format, a \<open>ValueError\<close> there leading to the final one.
\<close>

lemma try_patterns_skip:
  assumes "\<forall>(p, f) \<in> set ps. \<not> re_match p t"
  shows "try_patterns db clk t z ps = Inl (ValueError (''Could not parse time: '' @ t))"
  using assms by (induction ps) auto

lemma try_patterns_only:
  assumes "(p, f) \<in> set ps" and "re_match p t"
    and "\<forall>(p', f') \<in> set ps. re_match p' t \<longrightarrow> p' = p \<and> f' = f"
  shows "try_patterns db clk t z ps =
           (case attempt db clk t z f of
              Inl (ValueError msg) \<Rightarrow> Inl (ValueError (''Could not parse time: '' @ t))
            | Inl e \<Rightarrow> Inl e
            | Inr dt \<Rightarrow> Inr dt)"
  using assms
proof (induction ps)
  case Nil
  then show ?case by simp
next
  case (Cons a ps)
  obtain p' f' where a: "a = (p', f')" by (cases a)
  show ?case
  proof (cases "re_match p' t")
    case True
    with Cons.prems(3) a have eq: "p' = p" "f' = f" by auto
    have rest: "\<forall>(q, g) \<in> set ps. re_match q t \<longrightarrow> q = p \<and> g = f"
      using Cons.prems(3) by auto
    show ?thesis
    proof (cases "attempt db clk t z f")
      case (Inr dt)
      with True a eq show ?thesis by simp
    next
      case (Inl e)
      show ?thesis
      proof (cases e)
        case (ValueError msg)
        show ?thesis
        proof (cases "(p, f) \<in> set ps")
          case True
          from Cons.IH [OF True Cons.prems(2) rest] Inl ValueError a eq \<open>re_match p' t\<close>
          show ?thesis by simp
        next
          case False
          with rest have "\<forall>(q, g) \<in> set ps. \<not> re_match q t" by auto
          from try_patterns_skip [OF this] Inl ValueError a eq \<open>re_match p' t\<close>
          show ?thesis by simp
        qed
      next
        case (ZoneInfoNotFoundError msg)
        with Inl True a eq show ?thesis by simp
      next
        case (OverflowError msg)
        with Inl True a eq show ?thesis by simp
      qed
    qed
  next
    case False
    with Cons.prems a have "(p, f) \<in> set ps" by auto
    moreover have "\<forall>(q, g) \<in> set ps. re_match q t \<longrightarrow> q = p \<and> g = f"
      using Cons.prems(3) by auto
    ultimately show ?thesis using Cons.IH Cons.prems(2) False a by simp
  qed
qed

lemma parse_matched:
  assumes "(p, f) \<in> set patterns" and "re_match p (strip s)"
  shows "parse_time_input db clk s z =
           (case attempt db clk (strip s) z f of
              Inl (ValueError msg) \<Rightarrow> Inl (ValueError (''Could not parse time: '' @ strip s))
            | Inl e \<Rightarrow> Inl e
            | Inr dt \<Rightarrow> Inr dt)"
proof -
  from matched_shape [OF assms] have "lower (strip s) \<noteq> ''now''"
    by (simp add: matched_not_now)
  moreover have "\<forall>(p', f') \<in> set patterns. re_match p' (strip s) \<longrightarrow> p' = p \<and> f' = f"
    using patterns_exclusive [OF _ assms(1) _ assms(2)] by auto
  ultimately show ?thesis
    using try_patterns_only [OF assms(1,2), of db clk z]
    by (simp add: parse_time_input_def Let_def)
qed

section \<open>Facts about reading a date and a time\<close>

lemma atom_Space: "atom Space = isspace"
  by (rule ext) simp

lemma date_time_cases [consumes 1, case_names one two]:
  assumes "t \<in> lang date_time"
  obtains
    (one) y1 y2 y3 y4 c1 m1 m2 c2 d1 d2 ws h1 c3 n1 n2 where
      "t = y1 # y2 # y3 # y4 # c1 # m1 # m2 # c2 # d1 # d2 # ws @ [h1, c3, n1, n2]"
      "isdigit y1" "isdigit y2" "isdigit y3" "isdigit y4" "isdigit m1" "isdigit m2"
      "isdigit d1" "isdigit d2" "isdigit h1" "isdigit n1" "isdigit n2"
      "lower_char c1 = lower_char CHR ''-''" "lower_char c2 = lower_char CHR ''-''"
      "lower_char c3 = lower_char CHR '':''" "ws \<noteq> []" "list_all isspace ws"
  | (two) y1 y2 y3 y4 c1 m1 m2 c2 d1 d2 ws h1 h2 c3 n1 n2 where
      "t = y1 # y2 # y3 # y4 # c1 # m1 # m2 # c2 # d1 # d2 # ws @ [h1, h2, c3, n1, n2]"
      "isdigit y1" "isdigit y2" "isdigit y3" "isdigit y4" "isdigit m1" "isdigit m2"
      "isdigit d1" "isdigit d2" "isdigit h1" "isdigit h2" "isdigit n1" "isdigit n2"
      "lower_char c1 = lower_char CHR ''-''" "lower_char c2 = lower_char CHR ''-''"
      "lower_char c3 = lower_char CHR '':''" "ws \<noteq> []" "list_all isspace ws"
  using assms by (auto simp: date_time_def atom_Space)

lemma colon_not_digit: "lower_char c = lower_char CHR '':'' \<Longrightarrow> \<not> isdigit c"
  by (auto simp: isdigit_def lower_char_def less_eq_char_def split: if_splits)

lemma dropWhile_all_then:
  assumes "list_all P xs" and "\<not> P y"
  shows "dropWhile P (xs @ y # ys) = y # ys"
  using assms by (induction xs) auto

lemma read_num_2_two:
  "isdigit a \<Longrightarrow> isdigit b \<Longrightarrow> read_num 2 (a # b # rest) = Some (int_of_digits [a, b], rest)"
  by (simp add: read_num_def)

lemma read_num_2_one:
  "isdigit a \<Longrightarrow> \<not> isdigit c \<Longrightarrow> read_num 2 (a # c # rest) = Some (int_of_digits [a], c # rest)"
  by (simp add: read_num_def)

lemma read_num_4:
  "isdigit a \<Longrightarrow> isdigit b \<Longrightarrow> isdigit c \<Longrightarrow> isdigit d \<Longrightarrow>
   read_num 4 (a # b # c # d # rest) = Some (int_of_digits [a, b, c, d], rest)"
  by (simp add: read_num_def)

lemma dash_not_digit: "lower_char c = lower_char CHR ''-'' \<Longrightarrow> \<not> isdigit c"
  by (auto simp: isdigit_def lower_char_def less_eq_char_def split: if_splits)

lemma isspace_blank: "isspace CHR '' ''"
  by (simp add: isspace_def)

lemma not_space_chars: "\<not> isspace CHR ''%''" "\<not> isspace CHR ''-''" "\<not> isspace CHR '':''"
  by (simp_all add: isspace_def)

lemma scan_date_prefix:
  assumes "isdigit y1" "isdigit y2" "isdigit y3" "isdigit y4" "isdigit m1" "isdigit m2"
    "isdigit d1" "isdigit d2" "isdigit h1"
    "lower_char c1 = lower_char CHR ''-''" "lower_char c2 = lower_char CHR ''-''"
    "ws \<noteq> []" "list_all isspace ws"
  shows "scan ''%Y-%m-%d %H:%M''
           (y1 # y2 # y3 # y4 # c1 # m1 # m2 # c2 # d1 # d2 # ws @ h1 # rest) f =
         (if 1 \<le> int_of_digits [m1, m2] \<and> int_of_digits [m1, m2] \<le> 12 \<and>
             1 \<le> int_of_digits [d1, d2] \<and> int_of_digits [d1, d2] \<le> 31
          then scan ''%H:%M'' (h1 # rest)
                 (f\<lparr> f_year := int_of_digits [y1, y2, y3, y4],
                     f_month := int_of_digits [m1, m2], f_day := int_of_digits [d1, d2] \<rparr>)
          else None)"
proof -
  have h1: "\<not> isspace h1" using assms(9) by (rule digit_facts(3))
  have dw: "dropWhile isspace (ws @ h1 # rest) = h1 # rest"
    using assms(13) h1 by (rule dropWhile_all_then)
  have len: "length (h1 # rest) \<noteq> length (ws @ h1 # rest)" using assms(12) by simp
  have a: "scan ''%Y-%m-%d %H:%M''
             (y1 # y2 # y3 # y4 # c1 # m1 # m2 # c2 # d1 # d2 # ws @ h1 # rest) f
           = scan ''%m-%d %H:%M'' (m1 # m2 # c2 # d1 # d2 # ws @ h1 # rest)
               (f\<lparr> f_year := int_of_digits [y1, y2, y3, y4] \<rparr>)"
    using assms(1-4,10) by (simp add: directive_def read_num_4 not_space_chars)
  have b: "scan ''%m-%d %H:%M'' (m1 # m2 # c2 # d1 # d2 # ws @ h1 # rest) g
           = (if 1 \<le> int_of_digits [m1, m2] \<and> int_of_digits [m1, m2] \<le> 12
              then scan ''%d %H:%M'' (d1 # d2 # ws @ h1 # rest)
                     (g\<lparr> f_month := int_of_digits [m1, m2] \<rparr>)
              else None)" for g
    using assms(5,6,11) by (simp add: directive_def read_num_2_two not_space_chars)
  have c: "scan ''%d %H:%M'' (d1 # d2 # ws @ h1 # rest) g
           = (if 1 \<le> int_of_digits [d1, d2] \<and> int_of_digits [d1, d2] \<le> 31
              then scan ''%H:%M'' (h1 # rest) (g\<lparr> f_day := int_of_digits [d1, d2] \<rparr>)
              else None)" for g
    using assms(7,8) len by (simp add: directive_def read_num_2_two isspace_blank dw)
  show ?thesis unfolding a b c by simp
qed

lemma scan_time_one:
  assumes "isdigit h1" "isdigit n1" "isdigit n2" "lower_char c3 = lower_char CHR '':''"
  shows "scan ''%H:%M'' [h1, c3, n1, n2] f =
         (if int_of_digits [h1] \<le> 23 \<and> int_of_digits [n1, n2] \<le> 59
          then Some (f\<lparr> f_hour := int_of_digits [h1], f_minute := int_of_digits [n1, n2] \<rparr>)
          else None)"
  using assms colon_not_digit [OF assms(4)]
  by (simp add: directive_def read_num_2_one read_num_2_two not_space_chars read_num_def)

lemma scan_time_two:
  assumes "isdigit h1" "isdigit h2" "isdigit n1" "isdigit n2"
    "lower_char c3 = lower_char CHR '':''"
  shows "scan ''%H:%M'' [h1, h2, c3, n1, n2] f =
         (if int_of_digits [h1, h2] \<le> 23 \<and> int_of_digits [n1, n2] \<le> 59
          then Some (f\<lparr> f_hour := int_of_digits [h1, h2], f_minute := int_of_digits [n1, n2] \<rparr>)
          else None)"
  using assms
  by (simp add: directive_def read_num_2_two not_space_chars read_num_def)

lemma date_time_fields:
  assumes "t \<in> lang date_time" and "strptime t ''%Y-%m-%d %H:%M'' = Inr d"
  shows "year d = int_of_digits (take 4 t)
       \<and> month d = int_of_digits (take 2 (drop 5 t))
       \<and> day d = int_of_digits (take 2 (drop 8 t))
       \<and> hour d = int_of_digits (takeWhile isdigit (dropWhile isspace (drop 10 t)))
       \<and> minute d = int_of_digits (drop (length t - 2) t)
       \<and> second d = 0 \<and> microsecond d = 0"
  using assms(1)
proof (cases rule: date_time_cases)
  case (one y1 y2 y3 y4 c1 m1 m2 c2 d1 d2 ws h1 c3 n1 n2)
  have c3: "\<not> isdigit c3" using one(15) by (rule colon_not_digit)
  have h1: "\<not> isspace h1" using one(10) by (rule digit_facts(3))
  have dw: "dropWhile isspace (ws @ h1 # rest) = h1 # rest" for rest
    using one(17) h1 by (rule dropWhile_all_then)
  have sc: "scan ''%Y-%m-%d %H:%M'' t f =
         (if 1 \<le> int_of_digits [m1, m2] \<and> int_of_digits [m1, m2] \<le> 12 \<and>
             1 \<le> int_of_digits [d1, d2] \<and> int_of_digits [d1, d2] \<le> 31 \<and>
             int_of_digits [h1] \<le> 23 \<and> int_of_digits [n1, n2] \<le> 59
          then Some (f\<lparr> f_year := int_of_digits [y1, y2, y3, y4],
                     f_month := int_of_digits [m1, m2], f_day := int_of_digits [d1, d2],
                     f_hour := int_of_digits [h1], f_minute := int_of_digits [n1, n2] \<rparr>)
          else None)" for f
    unfolding one(1)
    using scan_date_prefix [OF one(2-10) one(13,14,16,17), of "[c3, n1, n2]" f]
      scan_time_one [OF one(10-12) one(15)]
    by simp
  have "take 4 t = [y1, y2, y3, y4] \<and> take 2 (drop 5 t) = [m1, m2]"
    "take 2 (drop 8 t) = [d1, d2] \<and>
     takeWhile isdigit (dropWhile isspace (drop 10 t)) = [h1] \<and>
     drop (length t - 2) t = [n1, n2]"
    using one(10) c3 by (simp_all add: one(1) dw)
  moreover note assms(2) [unfolded strptime_def sc]
  ultimately show ?thesis
    by (auto split: if_splits)
next
  case (two y1 y2 y3 y4 c1 m1 m2 c2 d1 d2 ws h1 h2 c3 n1 n2)
  have c3: "\<not> isdigit c3" using two(16) by (rule colon_not_digit)
  have h1: "\<not> isspace h1" using two(10) by (rule digit_facts(3))
  have dw: "dropWhile isspace (ws @ h1 # rest) = h1 # rest" for rest
    using two(18) h1 by (rule dropWhile_all_then)
  have sc: "scan ''%Y-%m-%d %H:%M'' t f =
         (if 1 \<le> int_of_digits [m1, m2] \<and> int_of_digits [m1, m2] \<le> 12 \<and>
             1 \<le> int_of_digits [d1, d2] \<and> int_of_digits [d1, d2] \<le> 31 \<and>
             int_of_digits [h1, h2] \<le> 23 \<and> int_of_digits [n1, n2] \<le> 59
          then Some (f\<lparr> f_year := int_of_digits [y1, y2, y3, y4],
                     f_month := int_of_digits [m1, m2], f_day := int_of_digits [d1, d2],
                     f_hour := int_of_digits [h1, h2], f_minute := int_of_digits [n1, n2] \<rparr>)
          else None)" for f
    unfolding two(1)
    using scan_date_prefix [OF two(2-10) two(14,15,17,18), of "[h2, c3, n1, n2]" f]
      scan_time_two [OF two(10-13) two(16)]
    by simp
  have "take 4 t = [y1, y2, y3, y4] \<and> take 2 (drop 5 t) = [m1, m2]"
    "take 2 (drop 8 t) = [d1, d2] \<and>
     takeWhile isdigit (dropWhile isspace (drop 10 t)) = [h1, h2] \<and>
     drop (length t - 2) t = [n1, n2]"
    using two(10,11) c3 by (simp_all add: two(1) dw)
  moreover note assms(2) [unfolded strptime_def sc]
  ultimately show ?thesis
    by (auto split: if_splits)
qed

lemma attempt_strptime_error:
  assumes "strptime (if CHR ''Y'' \<in> set fmt then t else upper t) fmt = Inl e"
  shows "\<exists>msg. attempt db clk t z fmt = Inl (ValueError msg)"
proof -
  from strptime_error [OF assms] obtain msg where "e = ValueError msg" by blast
  with assms show ?thesis
    by (cases "CHR ''Y'' \<in> set fmt") (auto simp: attempt_def split: prod.splits)
qed

lemma convert_time_parse_error:
  assumes "normalize_timezone self from_tz = Inr a" and "normalize_timezone self to_tz = Inr b"
    and "parse_time_input db clk expr a = Inl e"
  shows "convert_time self db clk expr from_tz to_tz = [(''error'', PyStr (str_exn e))]"
  using assms by (simp add: convert_time_def convert_steps_def)

lemma attempt_time_only_date:
  assumes "CHR ''Y'' \<notin> set fmt" and "attempt db clk t z fmt = Inr dt"
  shows "date (naive dt) = date (localnow clk)"
  using assms
  by (auto simp: attempt_def date_def Let_def split: prod.splits sum.splits)

lemma attempt_full_strptime:
  assumes "CHR ''Y'' \<in> set fmt" and "attempt db clk t z fmt = Inr dt"
  shows "strptime t fmt = Inr (naive dt)"
  using assms by (auto simp: attempt_def split: sum.splits)

lemma parse_matched_Inr:
  assumes "(p, f) \<in> set patterns" and "re_match p (strip s)"
    and "parse_time_input db clk s z = Inr dt"
  shows "attempt db clk (strip s) z f = Inr dt"
  using assms(3) unfolding parse_matched [OF assms(1,2)]
  by (auto split: sum.splits exn.splits)

lemma attempt_same_date:
  assumes "date (localnow clk1) = date (localnow clk2)"
  shows "attempt db clk1 t z f = attempt db clk2 t z f"
  using assms by (simp add: attempt_def)

lemma try_patterns_same_attempts:
  assumes "\<forall>f. attempt db clk1 t z f = attempt db clk2 t z f"
  shows "try_patterns db clk1 t z ps = try_patterns db clk2 t z ps"
  using assms by (induction ps) (auto split: sum.splits exn.splits)

text \<open>
  A time-only expression parsed under another clock: the same value, on the local date of
  that clock.
\<close>

lemma time_only_other_clock:
  assumes "(p, f) \<in> set patterns" and "CHR ''Y'' \<notin> set f" and "re_match p (strip s)"
    and "parse_time_input db clk1 s z = Inr d1"
  shows "date (naive d1) = date (localnow clk1) \<and>
         parse_time_input db clk2 s z =
           Inr (d1\<lparr> naive := (naive d1)\<lparr> year := year (localnow clk2),
                  month := month (localnow clk2), day := day (localnow clk2) \<rparr> \<rparr>)"
proof -
  from parse_matched_Inr [OF assms(1,3,4)] have a: "attempt db clk1 (strip s) z f = Inr d1" .
  with assms(2) obtain dt0 tz where st: "strptime (upper (strip s)) f = Inr dt0"
    and zi: "ZoneInfo db z = Inr tz"
    and d1: "d1 = \<lparr> naive = dt0\<lparr> year := year (localnow clk1),
                  month := month (localnow clk1), day := day (localnow clk1) \<rparr>, tzinfo = tz \<rparr>"
    by (auto simp: attempt_def date_def Let_def split: sum.splits)
  have "attempt db clk2 (strip s) z f =
          Inr \<lparr> naive = dt0\<lparr> year := year (localnow clk2),
                  month := month (localnow clk2), day := day (localnow clk2) \<rparr>, tzinfo = tz \<rparr>"
    using assms(2) st zi by (simp add: attempt_def date_def)
  then have "parse_time_input db clk2 s z =
          Inr \<lparr> naive = dt0\<lparr> year := year (localnow clk2),
                  month := month (localnow clk2), day := day (localnow clk2) \<rparr>, tzinfo = tz \<rparr>"
    by (simp add: parse_matched [OF assms(1,3)])
  moreover have "date (naive d1) = date (localnow clk1)" by (simp add: d1 date_def)
  ultimately show ?thesis by (simp add: d1)
qed

section \<open>Facts about conversion\<close>

lemma astimezone_instant:
  assumes "coherent db" and "astimezone db x tz = Inr y"
  shows "utc_instant db y = utc_instant db x \<and> tzinfo y = tz"
proof (cases "tz = tzinfo x")
  case True
  with assms(2) show ?thesis by (simp add: astimezone_def)
next
  case False
  with assms(2) obtain utc r
    where u: "datetime_add (naive x) (- utcoffset db (tzinfo x) (naive x)) = Inr utc"
      and r: "fromutc db tz utc = Inr r" and y: "y = \<lparr> naive = r, tzinfo = tz \<rparr>"
    by (auto simp: astimezone_def split: sum.splits)
  from datetime_add_wall [OF u]
  have "wall_us utc = wall_us (naive x) - 1000000 * utcoffset db (tzinfo x) (naive x)" by simp
  moreover from assms(1) r have "wall_us r - 1000000 * utcoffset db tz r = wall_us utc"
    by (auto simp: coherent_def)
  ultimately show ?thesis by (simp add: utc_instant_def y)
qed

lemma rule_coherent:
  assumes "wf_rule r"
  shows "w + 1000000 * offset_at_utc r w
           - 1000000 * offset_at_local r (w + 1000000 * offset_at_utc r w) (fold_at_utc r w) = w"
proof (cases r)
  case (Fixed off)
  then show ?thesis by simp
next
  case (Summer std s e)
  with assms have wf: "s + 3600000000 \<le> e" by simp
  consider "w < s" | "s \<le> w" "w < e" | "e \<le> w" "w < e + 3600000000" | "e + 3600000000 \<le> w"
    by linarith
  then show ?thesis
    using wf by cases (simp_all add: Summer Let_def)
qed

lemma wall_us_fold: "wall_us (r\<lparr> fold := f \<rparr>) = wall_us r"
  by (simp add: wall_us_def)

lemma coherent_rules:
  assumes "list_all (\<lambda>kr. wf_rule (snd kr)) rules"
  shows "coherent (rules_tzdb rules)"
proof -
  have wf: "wf_rule (rule_of rules key)" for key
  proof (cases "map_of rules key")
    case None
    then show ?thesis by (simp add: rule_of_def)
  next
    case (Some r)
    then have "(key, r) \<in> set rules" by (rule map_of_SomeD)
    with assms have "wf_rule r" by (auto simp: list_all_iff)
    with Some show ?thesis by (simp add: rule_of_def)
  qed
  show ?thesis
    unfolding coherent_def
  proof (intro allI impI)
    fix key u r
    assume f: "fromutc (rules_tzdb rules) key u = Inr r"
    let ?rule = "rule_of rules key" and ?w = "wall_us u"
    from f obtain d where d: "datetime_add u (offset_at_utc ?rule ?w) = Inr d"
      and r: "r = d\<lparr> fold := fold_at_utc ?rule ?w \<rparr>"
      by (auto simp: rules_tzdb_def split: sum.splits)
    from datetime_add_wall [OF d] have w: "wall_us r = ?w + 1000000 * offset_at_utc ?rule ?w"
      by (simp add: r wall_us_fold)
    have "utcoffset (rules_tzdb rules) key r
            = offset_at_local ?rule (?w + 1000000 * offset_at_utc ?rule ?w) (fold_at_utc ?rule ?w)"
      by (simp add: rules_tzdb_def w) (simp add: r)
    with w rule_coherent [OF wf [of key], where w = ?w]
    show "wall_us r - 1000000 * utcoffset (rules_tzdb rules) key r = wall_us u" by simp
  qed
qed

lemma coherent_demo: "coherent demo_tzdb"
  unfolding demo_tzdb_def by (rule coherent_rules) code_simp

section \<open>Parsing and conversion: the claims\<close>

text \<open>
  C4. When the trimmed expression has the shape of one of the four patterns and
  \<open>strptime\<close> rejects it with the format of that pattern (a field out of range), the
  whole call raises \<open>ValueError\<close> with the message \<open>Could not parse time\<close>: the loop goes
  on to the later patterns, and none of them can match. A conversion whose zones resolve
  then returns the error variant with that message, as for \<open>25:00\<close>.
\<close>

theorem out_of_range_fails_whole_call:
  assumes "(pattern, fmt) \<in> set patterns" and "re_match pattern (strip expr)"
    and "strptime (if CHR ''Y'' \<in> set fmt then strip expr else upper (strip expr)) fmt = Inl e"
  shows "parse_time_input db clk expr source_tz
           = Inl (ValueError (''Could not parse time: '' @ strip expr))
         \<and> (\<forall>a b. normalize_timezone self from_tz = Inr a \<and> normalize_timezone self to_tz = Inr b
               \<longrightarrow> convert_time self db clk expr from_tz to_tz
                     = [(''error'', PyStr (''Could not parse time: '' @ strip expr))])"
proof -
  have p: "parse_time_input db clk expr z
             = Inl (ValueError (''Could not parse time: '' @ strip expr))" for z
  proof -
    from attempt_strptime_error [OF assms(3)] obtain msg
      where "attempt db clk (strip expr) z fmt = Inl (ValueError msg)" by blast
    then show ?thesis by (simp add: parse_matched [OF assms(1,2)])
  qed
  show ?thesis
  proof (intro conjI allI impI)
    show "parse_time_input db clk expr source_tz
            = Inl (ValueError (''Could not parse time: '' @ strip expr))" by (rule p)
  next
    fix a b
    assume "normalize_timezone self from_tz = Inr a \<and> normalize_timezone self to_tz = Inr b"
    then show "convert_time self db clk expr from_tz to_tz
                 = [(''error'', PyStr (''Could not parse time: '' @ strip expr))]"
      using convert_time_parse_error [where e = "ValueError (''Could not parse time: '' @ strip expr)"] p
      by simp
  qed
qed

theorem out_of_range_fails_whole_call_witness:
  "(hour_minute, ''%H:%M'') \<in> set patterns \<and> re_match hour_minute (strip ''25:00'')
   \<and> strptime (upper (strip ''25:00'')) ''%H:%M''
       = Inl (ValueError ''time data 25:00 does not match format %H:%M'')
   \<and> parse_time_input demo_tzdb demo_clock ''25:00'' ''UTC''
       = Inl (ValueError ''Could not parse time: 25:00'')
   \<and> convert_time (init demo_zones) demo_tzdb demo_clock ''25:00'' ''UTC'' ''UTC''
       = [(''error'', PyStr ''Could not parse time: 25:00'')]"
proof -
  have a: "(hour_minute, ''%H:%M'') \<in> set patterns" by (simp add: patterns_def)
  have b: "re_match hour_minute (strip ''25:00'')" by code_simp
  have c: "strptime (if CHR ''Y'' \<in> set ''%H:%M'' then strip ''25:00'' else upper (strip ''25:00''))
             ''%H:%M'' = Inl (ValueError ''time data 25:00 does not match format %H:%M'')"
    by code_simp
  have c': "strptime (upper (strip ''25:00'')) ''%H:%M''
              = Inl (ValueError ''time data 25:00 does not match format %H:%M'')"
    by code_simp
  have s: "strip ''25:00'' = ''25:00''" by code_simp
  have n: "normalize_timezone (init demo_zones) ''UTC'' = Inr ''UTC''" by code_simp
  from out_of_range_fails_whole_call [OF a b c, of demo_tzdb demo_clock "''UTC''"
      "init demo_zones" "''UTC''" "''UTC''"] n
  have "parse_time_input demo_tzdb demo_clock ''25:00'' ''UTC''
          = Inl (ValueError ''Could not parse time: 25:00'')"
    and "convert_time (init demo_zones) demo_tzdb demo_clock ''25:00'' ''UTC'' ''UTC''
          = [(''error'', PyStr ''Could not parse time: 25:00'')]"
    by (simp_all add: s)
  with a b c' show ?thesis by simp
qed

text \<open>
  C5. In the success variant the target value denotes the same absolute instant as the
  source value, and converting the target back to the source zone gives that instant
  again, for every zone database that is coherent, whatever its transitions.
\<close>

theorem conversion_preserves_instant:
  assumes "coherent db"
    and "convert_time self db clk time_str from_tz to_tz
           = [ (''source_time'', PyDatetime s), (''target_time'', PyDatetime t),
               (''source_tz'', PyStr a), (''target_tz'', PyStr b) ]"
  shows "utc_instant db t = utc_instant db s
         \<and> (\<forall>again. astimezone db t (tzinfo s) = Inr again \<longrightarrow>
               utc_instant db again = utc_instant db s \<and> tzinfo again = tzinfo s)"
proof -
  from assms(2) have "astimezone db s b = Inr t"
    by (auto simp: convert_time_def convert_steps_def ZoneInfo_def split: sum.splits if_splits)
  from astimezone_instant [OF assms(1) this] have st: "utc_instant db t = utc_instant db s" by simp
  moreover have "utc_instant db again = utc_instant db s \<and> tzinfo again = tzinfo s"
    if "astimezone db t (tzinfo s) = Inr again" for again
    using astimezone_instant [OF assms(1) that] st by simp
  ultimately show ?thesis by blast
qed

theorem conversion_preserves_instant_witness:
  "coherent demo_tzdb
   \<and> convert_time (init demo_zones) demo_tzdb demo_clock ''2024-07-01 12:00'' ''Europe/London''
        ''Asia/Tokyo''
       = [ (''source_time'',
              PyDatetime \<lparr>naive = mk_datetime 2024 7 1 12 0, tzinfo = ''Europe/London''\<rparr>),
           (''target_time'',
              PyDatetime \<lparr>naive = mk_datetime 2024 7 1 20 0, tzinfo = ''Asia/Tokyo''\<rparr>),
           (''source_tz'', PyStr ''Europe/London''), (''target_tz'', PyStr ''Asia/Tokyo'') ]
   \<and> utc_instant demo_tzdb \<lparr>naive = mk_datetime 2024 7 1 20 0, tzinfo = ''Asia/Tokyo''\<rparr>
       = utc_instant demo_tzdb \<lparr>naive = mk_datetime 2024 7 1 12 0, tzinfo = ''Europe/London''\<rparr>
   \<and> astimezone demo_tzdb \<lparr>naive = mk_datetime 2024 7 1 20 0, tzinfo = ''Asia/Tokyo''\<rparr>
        ''Europe/London''
       = Inr \<lparr>naive = mk_datetime 2024 7 1 12 0, tzinfo = ''Europe/London''\<rparr>"
proof -
  have c: "coherent demo_tzdb" by (rule coherent_demo)
  have r: "convert_time (init demo_zones) demo_tzdb demo_clock ''2024-07-01 12:00''
             ''Europe/London'' ''Asia/Tokyo''
       = [ (''source_time'',
              PyDatetime \<lparr>naive = mk_datetime 2024 7 1 12 0, tzinfo = ''Europe/London''\<rparr>),
           (''target_time'',
              PyDatetime \<lparr>naive = mk_datetime 2024 7 1 20 0, tzinfo = ''Asia/Tokyo''\<rparr>),
           (''source_tz'', PyStr ''Europe/London''), (''target_tz'', PyStr ''Asia/Tokyo'') ]"
    by code_simp
  have b: "astimezone demo_tzdb \<lparr>naive = mk_datetime 2024 7 1 20 0, tzinfo = ''Asia/Tokyo''\<rparr>
             ''Europe/London''
       = Inr \<lparr>naive = mk_datetime 2024 7 1 12 0, tzinfo = ''Europe/London''\<rparr>"
    by code_simp
  from conversion_preserves_instant [OF c r] c r b show ?thesis by simp
qed

text \<open>
  C6. For every expression, every two tokens, every zone database and every clock, the
  result is either the dictionary with the one key \<open>error\<close>, holding the text of the
  exception that a step raised, or the dictionary with the four keys of a success, holding
  the results of the four steps. Every exception of a step ends in the first form.
\<close>

theorem convert_time_two_variants:
  "(\<exists>e. convert_steps self db clk time_str from_tz to_tz = Inl e \<and>
        convert_time self db clk time_str from_tz to_tz = [(''error'', PyStr (str_exn e))])
   \<or> (\<exists>source_time target_time source_tz target_tz.
        convert_time self db clk time_str from_tz to_tz
          = [ (''source_time'', PyDatetime source_time),
              (''target_time'', PyDatetime target_time),
              (''source_tz'', PyStr source_tz),
              (''target_tz'', PyStr target_tz) ] \<and>
        normalize_timezone self from_tz = Inr source_tz \<and>
        normalize_timezone self to_tz = Inr target_tz \<and>
        parse_time_input db clk time_str source_tz = Inr source_time \<and>
        astimezone db source_time target_tz = Inr target_time)"
  by (auto simp: convert_time_def convert_steps_def ZoneInfo_def split: sum.splits if_splits)

text \<open>
  C7. When the resolution of the source token fails, or that of the target token after
  the source token resolved, the conversion returns the error variant with the message of
  that failure, whatever the time expression, the zone database and the clock are: the
  expression is not looked at.
\<close>

theorem resolution_failure_short_circuits:
  assumes "normalize_timezone self from_tz = Inl e
           \<or> (\<exists>z. normalize_timezone self from_tz = Inr z) \<and> normalize_timezone self to_tz = Inl e"
  shows "convert_time self db clk time_str from_tz to_tz = [(''error'', PyStr (str_exn e))]"
  using assms by (auto simp: convert_time_def convert_steps_def)

theorem resolution_failure_short_circuits_witness:
  "normalize_timezone (init demo_zones) ''Mars/Phobos''
     = Inl (ValueError ''Unknown timezone: Mars/Phobos'')
   \<and> normalize_timezone (init demo_zones) ''UTC'' = Inr ''UTC''
   \<and> convert_time (init demo_zones) demo_tzdb demo_clock ''3pm'' ''Mars/Phobos'' ''UTC''
       = [(''error'', PyStr ''Unknown timezone: Mars/Phobos'')]
   \<and> convert_time (init demo_zones) demo_tzdb demo_clock ''not a time'' ''Mars/Phobos'' ''UTC''
       = [(''error'', PyStr ''Unknown timezone: Mars/Phobos'')]
   \<and> convert_time (init demo_zones) demo_tzdb demo_clock ''not a time'' ''UTC'' ''Mars/Phobos''
       = [(''error'', PyStr ''Unknown timezone: Mars/Phobos'')]
   \<and> parse_time_input demo_tzdb demo_clock ''not a time'' ''UTC''
       = Inl (ValueError ''Could not parse time: not a time'')"
proof -
  have n: "normalize_timezone (init demo_zones) ''Mars/Phobos''
             = Inl (ValueError ''Unknown timezone: Mars/Phobos'')" by code_simp
  have u: "normalize_timezone (init demo_zones) ''UTC'' = Inr ''UTC''" by code_simp
  have p: "parse_time_input demo_tzdb demo_clock ''not a time'' ''UTC''
             = Inl (ValueError ''Could not parse time: not a time'')" by code_simp
  have a: "convert_time (init demo_zones) demo_tzdb demo_clock t ''Mars/Phobos'' ''UTC''
             = [(''error'', PyStr ''Unknown timezone: Mars/Phobos'')]" for t
    using resolution_failure_short_circuits
      [of "init demo_zones" "''Mars/Phobos''" "ValueError ''Unknown timezone: Mars/Phobos''"
        "''UTC''" demo_tzdb demo_clock t] n
    by simp
  have b: "convert_time (init demo_zones) demo_tzdb demo_clock ''not a time'' ''UTC''
             ''Mars/Phobos'' = [(''error'', PyStr ''Unknown timezone: Mars/Phobos'')]"
    using resolution_failure_short_circuits
      [of "init demo_zones" "''UTC''" "ValueError ''Unknown timezone: Mars/Phobos''"
        "''Mars/Phobos''" demo_tzdb demo_clock "''not a time''"] n u
    by simp
  from n u p a [of "''3pm''"] a [of "''not a time''"] b show ?thesis by simp
qed

text \<open>
  C8. A parsed expression of one of the three time-only forms has the calendar date of
  the machine's local clock, whatever the source zone and its current date are. A parsed
  expression of the full form has the year, month, day, hour and minute written in it.
\<close>

theorem parsed_date_origin:
  assumes "parse_time_input db clk expr source_tz = Inr dt"
  shows "(re_match hour_meridiem (strip expr) \<or> re_match hour_minute_meridiem (strip expr)
            \<or> re_match hour_minute (strip expr)
          \<longrightarrow> date (naive dt) = date (localnow clk))
       \<and> (re_match date_time (strip expr)
          \<longrightarrow> year (naive dt) = int_of_digits (take 4 (strip expr))
            \<and> month (naive dt) = int_of_digits (take 2 (drop 5 (strip expr)))
            \<and> day (naive dt) = int_of_digits (take 2 (drop 8 (strip expr)))
            \<and> hour (naive dt)
                = int_of_digits (takeWhile isdigit (dropWhile isspace (drop 10 (strip expr))))
            \<and> minute (naive dt)
                = int_of_digits (drop (length (strip expr) - 2) (strip expr))
            \<and> second (naive dt) = 0 \<and> microsecond (naive dt) = 0)"
proof (rule conjI; rule impI)
  assume m: "re_match hour_meridiem (strip expr) \<or> re_match hour_minute_meridiem (strip expr)
            \<or> re_match hour_minute (strip expr)"
  have y: "CHR ''Y'' \<notin> set ''%I%p''" "CHR ''Y'' \<notin> set ''%I:%M%p''"
    "CHR ''Y'' \<notin> set ''%H:%M''" by simp_all
  have pf: "(hour_meridiem, ''%I%p'') \<in> set patterns"
    "(hour_minute_meridiem, ''%I:%M%p'') \<in> set patterns"
    "(hour_minute, ''%H:%M'') \<in> set patterns" by (simp_all add: patterns_def)
  from m consider (a) "re_match hour_meridiem (strip expr)"
    | (b) "re_match hour_minute_meridiem (strip expr)"
    | (c) "re_match hour_minute (strip expr)" by blast
  then show "date (naive dt) = date (localnow clk)"
  proof cases
    case a
    from y(1) parse_matched_Inr [OF pf(1) a assms] show ?thesis
      by (rule attempt_time_only_date)
  next
    case b
    from y(2) parse_matched_Inr [OF pf(2) b assms] show ?thesis
      by (rule attempt_time_only_date)
  next
    case c
    from y(3) parse_matched_Inr [OF pf(3) c assms] show ?thesis
      by (rule attempt_time_only_date)
  qed
next
  assume m: "re_match date_time (strip expr)"
  have pf: "(date_time, ''%Y-%m-%d %H:%M'') \<in> set patterns" by (simp add: patterns_def)
  have y: "CHR ''Y'' \<in> set ''%Y-%m-%d %H:%M''" by simp
  have "strptime (strip expr) ''%Y-%m-%d %H:%M'' = Inr (naive dt)"
    using y parse_matched_Inr [OF pf m assms] by (rule attempt_full_strptime)
  from date_time_fields [OF re_match_stripped [OF m] this]
  show "year (naive dt) = int_of_digits (take 4 (strip expr))
            \<and> month (naive dt) = int_of_digits (take 2 (drop 5 (strip expr)))
            \<and> day (naive dt) = int_of_digits (take 2 (drop 8 (strip expr)))
            \<and> hour (naive dt)
                = int_of_digits (takeWhile isdigit (dropWhile isspace (drop 10 (strip expr))))
            \<and> minute (naive dt)
                = int_of_digits (drop (length (strip expr) - 2) (strip expr))
            \<and> second (naive dt) = 0 \<and> microsecond (naive dt) = 0" .
qed

theorem parsed_date_origin_witness:
  "parse_time_input demo_tzdb demo_clock (''3pm'' @ [CHR 0xA0]) ''Asia/Tokyo''
     = Inr \<lparr>naive = mk_datetime 2024 1 15 15 0, tzinfo = ''Asia/Tokyo''\<rparr>
   \<and> re_match hour_meridiem (strip (''3pm'' @ [CHR 0xA0]))
   \<and> date (mk_datetime 2024 1 15 15 0) = date (localnow demo_clock)
   \<and> datetime_now demo_tzdb demo_clock ''Asia/Tokyo''
     = Inr \<lparr>naive = mk_datetime 2024 1 16 10 30, tzinfo = ''Asia/Tokyo''\<rparr>
   \<and> parse_time_input demo_tzdb demo_clock (''2023-03-09'' @ CHR 0xA0 # '' 7:05'') ''Asia/Tokyo''
     = Inr \<lparr>naive = mk_datetime 2023 3 9 7 5, tzinfo = ''Asia/Tokyo''\<rparr>
   \<and> re_match date_time (strip (''2023-03-09'' @ CHR 0xA0 # '' 7:05''))
   \<and> int_of_digits (take 4 (strip (''2023-03-09'' @ CHR 0xA0 # '' 7:05''))) = 2023
   \<and> int_of_digits (take 2 (drop 5 (strip (''2023-03-09'' @ CHR 0xA0 # '' 7:05'')))) = 3
   \<and> int_of_digits (take 2 (drop 8 (strip (''2023-03-09'' @ CHR 0xA0 # '' 7:05'')))) = 9
   \<and> int_of_digits (takeWhile isdigit (dropWhile isspace (drop 10 (strip (''2023-03-09'' @ CHR 0xA0 # '' 7:05''))))) = 7
   \<and> int_of_digits (drop (length (strip (''2023-03-09'' @ CHR 0xA0 # '' 7:05'')) - 2) (strip (''2023-03-09'' @ CHR 0xA0 # '' 7:05''))) = 5"
proof -
  have a: "parse_time_input demo_tzdb demo_clock (''3pm'' @ [CHR 0xA0]) ''Asia/Tokyo''
     = Inr \<lparr>naive = mk_datetime 2024 1 15 15 0, tzinfo = ''Asia/Tokyo''\<rparr>" by code_simp
  have b: "re_match hour_meridiem (strip (''3pm'' @ [CHR 0xA0]))" by code_simp
  have c: "datetime_now demo_tzdb demo_clock ''Asia/Tokyo''
     = Inr \<lparr>naive = mk_datetime 2024 1 16 10 30, tzinfo = ''Asia/Tokyo''\<rparr>" by code_simp
  have d: "parse_time_input demo_tzdb demo_clock (''2023-03-09'' @ CHR 0xA0 # '' 7:05'') ''Asia/Tokyo''
     = Inr \<lparr>naive = mk_datetime 2023 3 9 7 5, tzinfo = ''Asia/Tokyo''\<rparr>" by code_simp
  have e: "re_match date_time (strip (''2023-03-09'' @ CHR 0xA0 # '' 7:05''))" by code_simp
  from parsed_date_origin [OF a] b
  have f: "date (mk_datetime 2024 1 15 15 0) = date (localnow demo_clock)" by simp
  from parsed_date_origin [OF d] e
  have g: "int_of_digits (take 4 (strip (''2023-03-09'' @ CHR 0xA0 # '' 7:05''))) = 2023
   \<and> int_of_digits (take 2 (drop 5 (strip (''2023-03-09'' @ CHR 0xA0 # '' 7:05'')))) = 3
   \<and> int_of_digits (take 2 (drop 8 (strip (''2023-03-09'' @ CHR 0xA0 # '' 7:05'')))) = 9
   \<and> int_of_digits (takeWhile isdigit (dropWhile isspace (drop 10 (strip (''2023-03-09'' @ CHR 0xA0 # '' 7:05''))))) = 7
   \<and> int_of_digits (drop (length (strip (''2023-03-09'' @ CHR 0xA0 # '' 7:05'')) - 2) (strip (''2023-03-09'' @ CHR 0xA0 # '' 7:05''))) = 5"
    by (simp add: mk_datetime_def)
  from a b c d e f g show ?thesis by simp
qed

text \<open>
  C9, as the code has it. The claim reads: two calls with the same expression, other than
  \<open>now\<close>, and the same source zone return equal values. A time-only expression takes
  the local date of the machine at the call, so \<open>3pm\<close> parsed on two successive days gives
  two values a day apart.
\<close>

theorem time_only_changes_with_day_counterexample:
  "lower (strip ''3pm'') \<noteq> ''now''
   \<and> parse_time_input demo_tzdb demo_clock ''3pm'' ''UTC''
       = Inr \<lparr>naive = mk_datetime 2024 1 15 15 0, tzinfo = ''UTC''\<rparr>
   \<and> parse_time_input demo_tzdb demo_clock_next_day ''3pm'' ''UTC''
       = Inr \<lparr>naive = mk_datetime 2024 1 16 15 0, tzinfo = ''UTC''\<rparr>
   \<and> utc_instant demo_tzdb \<lparr>naive = mk_datetime 2024 1 15 15 0, tzinfo = ''UTC''\<rparr>
       < utc_instant demo_tzdb \<lparr>naive = mk_datetime 2024 1 16 15 0, tzinfo = ''UTC''\<rparr>"
  by code_simp

text \<open>
  C9, amended. For an expression other than \<open>now\<close>, two calls with the same expression
  and source zone return the same result when the local calendar date of the machine is
  the same at both calls, or when the expression has the full date and time form. A
  time-only expression that parses at one call parses at any other call to the same time
  of day on the local date of that call, so the two results differ when the two local
  dates differ.
\<close>

theorem parse_repeatable_on_same_day:
  assumes "lower (strip expr) \<noteq> ''now''"
  shows "(date (localnow clk1) = date (localnow clk2) \<or> re_match date_time (strip expr)
          \<longrightarrow> parse_time_input db clk1 expr source_tz = parse_time_input db clk2 expr source_tz)
       \<and> ((re_match hour_meridiem (strip expr) \<or> re_match hour_minute_meridiem (strip expr)
             \<or> re_match hour_minute (strip expr))
            \<and> parse_time_input db clk1 expr source_tz = Inr d1
          \<longrightarrow> parse_time_input db clk2 expr source_tz =
                Inr (d1\<lparr> naive := (naive d1)\<lparr> year := year (localnow clk2),
                       month := month (localnow clk2), day := day (localnow clk2) \<rparr> \<rparr>)
              \<and> date (naive d1) = date (localnow clk1)
              \<and> (date (localnow clk1) \<noteq> date (localnow clk2)
                   \<longrightarrow> parse_time_input db clk2 expr source_tz
                         \<noteq> parse_time_input db clk1 expr source_tz))"
proof (rule conjI; rule impI)
  assume h: "date (localnow clk1) = date (localnow clk2) \<or> re_match date_time (strip expr)"
  then show "parse_time_input db clk1 expr source_tz = parse_time_input db clk2 expr source_tz"
  proof
    assume d: "date (localnow clk1) = date (localnow clk2)"
    have "\<forall>f. attempt db clk1 (strip expr) source_tz f = attempt db clk2 (strip expr) source_tz f"
      using attempt_same_date [OF d] by blast
    from try_patterns_same_attempts [OF this] assms show ?thesis
      by (simp add: parse_time_input_def Let_def)
  next
    assume m: "re_match date_time (strip expr)"
    have pf: "(date_time, ''%Y-%m-%d %H:%M'') \<in> set patterns" by (simp add: patterns_def)
    have "attempt db clk1 (strip expr) source_tz ''%Y-%m-%d %H:%M''
            = attempt db clk2 (strip expr) source_tz ''%Y-%m-%d %H:%M''"
      by (simp add: attempt_def)
    then show ?thesis by (simp add: parse_matched [OF pf m])
  qed
next
  assume h: "(re_match hour_meridiem (strip expr) \<or> re_match hour_minute_meridiem (strip expr)
             \<or> re_match hour_minute (strip expr))
            \<and> parse_time_input db clk1 expr source_tz = Inr d1"
  then have p1: "parse_time_input db clk1 expr source_tz = Inr d1" by simp
  have y: "CHR ''Y'' \<notin> set ''%I%p''" "CHR ''Y'' \<notin> set ''%I:%M%p''"
    "CHR ''Y'' \<notin> set ''%H:%M''" by simp_all
  have pf: "(hour_meridiem, ''%I%p'') \<in> set patterns"
    "(hour_minute_meridiem, ''%I:%M%p'') \<in> set patterns"
    "(hour_minute, ''%H:%M'') \<in> set patterns" by (simp_all add: patterns_def)
  let ?d2 = "d1\<lparr> naive := (naive d1)\<lparr> year := year (localnow clk2),
                       month := month (localnow clk2), day := day (localnow clk2) \<rparr> \<rparr>"
  from h consider (a) "re_match hour_meridiem (strip expr)"
    | (b) "re_match hour_minute_meridiem (strip expr)"
    | (c) "re_match hour_minute (strip expr)" by blast
  then have r: "date (naive d1) = date (localnow clk1) \<and>
                parse_time_input db clk2 expr source_tz = Inr ?d2"
  proof cases
    case a
    from pf(1) y(1) a p1 show ?thesis by (rule time_only_other_clock)
  next
    case b
    from pf(2) y(2) b p1 show ?thesis by (rule time_only_other_clock)
  next
    case c
    from pf(3) y(3) c p1 show ?thesis by (rule time_only_other_clock)
  qed
  have dd: "date (naive ?d2) = date (localnow clk2)" by (simp add: date_def)
  have "d1 \<noteq> ?d2" if nd: "date (localnow clk1) \<noteq> date (localnow clk2)"
  proof
    assume eq: "d1 = ?d2"
    have "date (naive d1) = date (naive ?d2)"
      by (rule arg_cong [OF eq, of "\<lambda>d. date (naive d)"])
    from this dd have "date (naive d1) = date (localnow clk2)" by (rule trans)
    with r nd show False by simp
  qed
  with r p1 show "parse_time_input db clk2 expr source_tz = Inr ?d2
              \<and> date (naive d1) = date (localnow clk1)
              \<and> (date (localnow clk1) \<noteq> date (localnow clk2)
                   \<longrightarrow> parse_time_input db clk2 expr source_tz
                         \<noteq> parse_time_input db clk1 expr source_tz)"
    by auto
qed

theorem parse_repeatable_on_same_day_witness:
  "lower (strip ''3pm'') \<noteq> ''now''
   \<and> date (localnow demo_clock) = date (localnow demo_clock_late)
   \<and> localnow demo_clock \<noteq> localnow demo_clock_late
   \<and> re_match hour_meridiem (strip ''3pm'')
   \<and> date (localnow demo_clock) \<noteq> date (localnow demo_clock_next_day)
   \<and> parse_time_input demo_tzdb demo_clock ''3pm'' ''UTC''
       = Inr \<lparr>naive = mk_datetime 2024 1 15 15 0, tzinfo = ''UTC''\<rparr>
   \<and> parse_time_input demo_tzdb demo_clock_late ''3pm'' ''UTC''
       = Inr \<lparr>naive = mk_datetime 2024 1 15 15 0, tzinfo = ''UTC''\<rparr>
   \<and> parse_time_input demo_tzdb demo_clock_next_day ''3pm'' ''UTC''
       \<noteq> parse_time_input demo_tzdb demo_clock ''3pm'' ''UTC''
   \<and> lower (strip (CHR 0xA0 # ''Now'' @ [CHR 0x85])) = ''now''"
proof -
  have g: "lower (strip (CHR 0xA0 # ''Now'' @ [CHR 0x85])) = ''now''" by code_simp
  have a: "lower (strip ''3pm'') \<noteq> ''now''" by code_simp
  have b: "date (localnow demo_clock) = date (localnow demo_clock_late)" by code_simp
  have c: "localnow demo_clock \<noteq> localnow demo_clock_late" by code_simp
  have m: "re_match hour_meridiem (strip ''3pm'')" by code_simp
  have n: "date (localnow demo_clock) \<noteq> date (localnow demo_clock_next_day)" by code_simp
  have d: "parse_time_input demo_tzdb demo_clock ''3pm'' ''UTC''
       = Inr \<lparr>naive = mk_datetime 2024 1 15 15 0, tzinfo = ''UTC''\<rparr>" by code_simp
  from parse_repeatable_on_same_day [OF a, of demo_clock demo_clock_late demo_tzdb "''UTC''"] b d
  have e: "parse_time_input demo_tzdb demo_clock_late ''3pm'' ''UTC''
       = Inr \<lparr>naive = mk_datetime 2024 1 15 15 0, tzinfo = ''UTC''\<rparr>" by simp
  from parse_repeatable_on_same_day [OF a, of demo_clock demo_clock_next_day demo_tzdb "''UTC''"
      "\<lparr>naive = mk_datetime 2024 1 15 15 0, tzinfo = ''UTC''\<rparr>"] m n d
  have f: "parse_time_input demo_tzdb demo_clock_next_day ''3pm'' ''UTC''
       \<noteq> parse_time_input demo_tzdb demo_clock ''3pm'' ''UTC''" by blast
  from a b c m n d e f g show ?thesis by simp
qed

end
